theory Spec2Isabelle
  imports Main "HOL-Library.Sublist"
begin

section \<open>Strings\<close>

text \<open>
  A JavaScript string is modelled as a \<^typ>\<open>string\<close>: a list of characters whose codes
  range over 0..255. On such strings the library functions below (\<open>trim\<close>,
  \<open>toLowerCase\<close>, the character classes of the regular expressions) are the ones of
  ECMAScript restricted to code units below 256.
\<close>

definition code :: "char \<Rightarrow> nat" where
  "code c = of_char c"

definition bslash :: char where
  "bslash = CHR 0x5C"

text \<open>White space of \<open>String.prototype.trim\<close> and of the class \<open>\s\<close>: TAB, LF, VT, FF, CR,
  SPACE and NBSP.\<close>

definition isSpace :: "char \<Rightarrow> bool" where
  "isSpace c = (code c \<in> {9, 10, 11, 12, 13, 32, 160})"

text \<open>Line terminators, which the regular expression atom \<open>.\<close> does not match: LF and CR.\<close>

definition isLineTerminator :: "char \<Rightarrow> bool" where
  "isLineTerminator c = (code c \<in> {10, 13})"

text \<open>Removing a leading and a trailing run of characters of one class: the effect of
  \<open>trim\<close> for white space, and of \<open>s.replace(/^X+|X+$/g, "")\<close> for a class \<open>X\<close>.\<close>

definition stripEnds :: "(char \<Rightarrow> bool) \<Rightarrow> string \<Rightarrow> string" where
  "stripEnds P s = rev (dropWhile P (rev (dropWhile P s)))"

definition trim :: "string \<Rightarrow> string" where
  "trim s = stripEnds isSpace s"

text \<open>\<open>toLowerCase\<close> on one code unit: A-Z and the upper-case letters of Latin-1 (0xC0-0xDE
  without the multiplication sign 0xD7) move up by 32.\<close>

definition isUpper :: "char \<Rightarrow> bool" where
  "isUpper c = ((65 \<le> code c \<and> code c \<le> 90) \<or> (192 \<le> code c \<and> code c \<le> 222 \<and> code c \<noteq> 215))"

definition lowerChar :: "char \<Rightarrow> char" where
  "lowerChar c = (if isUpper c then char_of (code c + 32) else c)"

definition toLowerCase :: "string \<Rightarrow> string" where
  "toLowerCase s = map lowerChar s"

section \<open>Tool policy\<close>

record ToolPolicy =
  allow :: "string list option"
  deny :: "string list option"

text \<open>The regular expressions that \<open>compilePattern\<close> can build are sequences of two kinds
  of atom: an escaped or plain literal character, and \<open>.*\<close>. A \<open>RegExp\<close> object is its
  atom list; the pattern is anchored at both ends.\<close>

datatype rxatom = Lit char | AnyStar

type_synonym RegExp = "rxatom list"

datatype CompiledPattern = All | Exact string | Regex RegExp

definition normalizeToolName :: "string \<Rightarrow> string" where
  "normalizeToolName name = toLowerCase (trim name)"

text \<open>The class \<open>[.*+?^${}()|[\]\\]\<close>.\<close>

definition isRegexSpecial :: "char \<Rightarrow> bool" where
  "isRegexSpecial c = (c \<in> set ''.*+?^${}()|[]'' \<or> c = bslash)"

text \<open>\<open>s.replace(/[.*+?^${}()|[\]\\]/g, "\\$&")\<close>\<close>

definition escapeRegExp :: "string \<Rightarrow> string" where
  "escapeRegExp s = concat (map (\<lambda>c. if isRegexSpecial c then [bslash, c] else [c]) s)"

text \<open>\<open>s.replaceAll(pat, rep)\<close> for a non-empty search string: occurrences are replaced
  from left to right and do not overlap.\<close>

function replaceAll :: "string \<Rightarrow> string \<Rightarrow> string \<Rightarrow> string" where
  "replaceAll pat rep [] = []"
| "replaceAll pat rep (c # cs) =
     (if pat \<noteq> [] \<and> prefix pat (c # cs)
      then rep @ replaceAll pat rep (drop (length pat) (c # cs))
      else c # replaceAll pat rep cs)"
  by pat_completeness auto
termination
  by (relation "measure (\<lambda>(pat, rep, s). length s)") auto

text \<open>\<open>new RegExp(src)\<close> on the fragment above: \<open>^\<close>, then atoms, then \<open>$\<close>. A backslash
  followed by a syntax character is that character; \<open>.*\<close> is any run of characters other
  than line terminators; a character outside the special class is itself. Any other source
  text gives \<open>None\<close> (the constructor throws, or the text is outside the fragment).\<close>

fun parseAtoms :: "string \<Rightarrow> rxatom list option" where
  "parseAtoms [] = Some []"
| "parseAtoms [c] = (if isRegexSpecial c then None else Some [Lit c])"
| "parseAtoms (c # d # ds) =
     (if c = bslash then
        (if isRegexSpecial d then map_option ((#) (Lit d)) (parseAtoms ds) else None)
      else if c = CHR ''.'' then
        (if d = CHR ''*'' then map_option ((#) AnyStar) (parseAtoms ds) else None)
      else if isRegexSpecial c then None
      else map_option ((#) (Lit c)) (parseAtoms (d # ds)))"

definition new_RegExp :: "string \<Rightarrow> RegExp option" where
  "new_RegExp src =
     (case src of
        [] \<Rightarrow> None
      | c # body \<Rightarrow>
          if c = CHR ''^'' \<and> body \<noteq> [] \<and> last body = CHR ''$''
          then parseAtoms (butlast body) else None)"

text \<open>\<open>re.test(name)\<close> for an anchored atom list.\<close>

fun regexTest :: "RegExp \<Rightarrow> string \<Rightarrow> bool" where
  "regexTest [] n = (n = [])"
| "regexTest (Lit c # r) n = (case n of [] \<Rightarrow> False | x # xs \<Rightarrow> x = c \<and> regexTest r xs)"
| "regexTest (AnyStar # r) n =
     (regexTest r n \<or>
      (case n of [] \<Rightarrow> False | x # xs \<Rightarrow> \<not> isLineTerminator x \<and> regexTest (AnyStar # r) xs))"

text \<open>The source text handed to \<open>new RegExp\<close> by \<open>compilePattern\<close>.\<close>

definition regexSource :: "string \<Rightarrow> string" where
  "regexSource normalized =
     (let escaped = escapeRegExp normalized
      in ''^'' @ replaceAll [bslash, CHR ''*''] ''.*'' escaped @ ''$'')"

definition compilePattern :: "string \<Rightarrow> CompiledPattern option" where
  "compilePattern pattern =
     (let normalized = normalizeToolName pattern in
      if normalized = [] then Some (Exact [])
      else if normalized = ''*'' then Some All
      else if CHR ''*'' \<notin> set normalized then Some (Exact normalized)
      else map_option Regex (new_RegExp (regexSource normalized)))"

text \<open>\<open>patterns.map(compilePattern)\<close>: an exception in one element is an exception of the
  whole.\<close>

fun compilePatterns :: "string list \<Rightarrow> CompiledPattern list option" where
  "compilePatterns [] = Some []"
| "compilePatterns (p # ps) =
     (case compilePattern p of
        None \<Rightarrow> None
      | Some c \<Rightarrow> map_option ((#) c) (compilePatterns ps))"

fun matchesAny :: "string \<Rightarrow> CompiledPattern list \<Rightarrow> bool" where
  "matchesAny name [] = False"
| "matchesAny name (All # patterns) = True"
| "matchesAny name (Exact v # patterns) = (name = v \<or> matchesAny name patterns)"
| "matchesAny name (Regex r # patterns) = (regexTest r name \<or> matchesAny name patterns)"

definition orEmpty :: "'a list option \<Rightarrow> 'a list" where
  "orEmpty xs = (case xs of None \<Rightarrow> [] | Some ys \<Rightarrow> ys)"

definition isToolAllowed :: "string \<Rightarrow> ToolPolicy option \<Rightarrow> bool option" where
  "isToolAllowed name policy =
     (case policy of
        None \<Rightarrow> Some True
      | Some p \<Rightarrow>
          (let normalized = normalizeToolName name in
           case compilePatterns (orEmpty (deny p)) of
             None \<Rightarrow> None
           | Some denyC \<Rightarrow>
               (case compilePatterns (orEmpty (allow p)) of
                  None \<Rightarrow> None
                | Some allowC \<Rightarrow>
                    if matchesAny normalized denyC then Some False
                    else if length allowC = 0 then Some True
                    else Some (matchesAny normalized allowC))))"


text \<open>One pattern against one (already normalized) name: compile, then match.\<close>

definition matchesPattern :: "string \<Rightarrow> string \<Rightarrow> bool" where
  "matchesPattern n pattern =
     (case compilePattern pattern of None \<Rightarrow> False | Some c \<Rightarrow> matchesAny n [c])"

text \<open>The atom a character of a normalized pattern stands for: the wildcard is \<open>.*\<close>, any
  other character is itself.\<close>

definition atomOf :: "char \<Rightarrow> rxatom" where
  "atomOf c = (if c = CHR ''*'' then AnyStar else Lit c)"

section \<open>Skill primitives\<close>

record Skill =
  name :: string
  description :: string
  filePath :: string
  baseDir :: string
  source :: string
  disableModelInvocation :: bool

subsection \<open>The file system\<close>

text \<open>
  The file system read by \<open>fs.readdir\<close> and \<open>fs.readFile\<close> is a finite tree. A file
  holds its content, or \<open>None\<close> when reading it fails; a directory holds a flag (can it
  be listed) and its entries by name. Paths have components separated by \<open>/\<close>, none of
  them \<open>.\<close> or \<open>..\<close>; on such paths \<open>path.join\<close> of a directory and an entry name
  appends the name.
\<close>

datatype fsnode = FFile "string option" | FDir bool "(string \<times> fsnode) list"

fun splitOn :: "char \<Rightarrow> string \<Rightarrow> string list" where
  "splitOn d [] = [[]]"
| "splitOn d (c # cs) =
     (if c = d then [] # splitOn d cs
      else (case splitOn d cs of [] \<Rightarrow> [[c]] | l # ls \<Rightarrow> (c # l) # ls))"

definition splitPath :: "string \<Rightarrow> string list" where
  "splitPath p = filter (\<lambda>c. c \<noteq> []) (splitOn (CHR ''/'') p)"

fun lookupPath :: "fsnode \<Rightarrow> string list \<Rightarrow> fsnode option" where
  "lookupPath node [] = Some node"
| "lookupPath (FFile c) (x # xs) = None"
| "lookupPath (FDir l entries) (x # xs) =
     (case map_of entries x of None \<Rightarrow> None | Some child \<Rightarrow> lookupPath child xs)"

text \<open>\<open>fs.readFile(p, "utf-8")\<close>: \<open>None\<close> when the call rejects.\<close>

definition readFile :: "fsnode \<Rightarrow> string \<Rightarrow> string option" where
  "readFile fs p =
     (case lookupPath fs (splitPath p) of
        Some (FFile (Some content)) \<Rightarrow> Some content
      | _ \<Rightarrow> None)"

definition isDirectory :: "fsnode \<Rightarrow> bool" where
  "isDirectory node = (case node of FDir l entries \<Rightarrow> True | FFile c \<Rightarrow> False)"

definition pathJoin :: "string \<Rightarrow> string \<Rightarrow> string" where
  "pathJoin a b = (if suffix ''/'' a then a @ b else a @ ''/'' @ b)"

definition basename :: "string \<Rightarrow> string" where
  "basename p =
     rev (takeWhile (\<lambda>c. c \<noteq> CHR ''/'') (dropWhile (\<lambda>c. c = CHR ''/'') (rev p)))"

definition basenameExt :: "string \<Rightarrow> string \<Rightarrow> string" where
  "basenameExt p ext =
     (let b = basename p
      in if b \<noteq> ext \<and> suffix ext b then take (length b - length ext) b else b)"

text \<open>\<open>path.resolve(p)\<close>: the absolute path without empty components, so without a
  trailing separator. The working directory is the root of the tree, as it is for
  \<open>lookupPath\<close>, which reads a relative path from the root.\<close>

fun joinPath :: "string list \<Rightarrow> string" where
  "joinPath [] = []"
| "joinPath [x] = x"
| "joinPath (x # xs) = x @ ''/'' @ joinPath xs"

definition pathResolve :: "string \<Rightarrow> string" where
  "pathResolve p = ''/'' @ joinPath (splitPath p)"

subsection \<open>Frontmatter\<close>

text \<open>The capture group of \<open>/^---\r?\n([\s\S]*?)\r?\n---/\<close>: after the opening line, the
  shortest text that is followed by an optional CR, a LF and \<open>---\<close>.\<close>

fun findClose :: "string \<Rightarrow> string option" where
  "findClose [] = None"
| "findClose (c # cs) =
     (if prefix [CHR 0x0D, CHR 0x0A, CHR ''-'', CHR ''-'', CHR ''-''] (c # cs)
         \<or> prefix [CHR 0x0A, CHR ''-'', CHR ''-'', CHR ''-''] (c # cs)
      then Some []
      else map_option ((#) c) (findClose cs))"

definition headerBlock :: "string \<Rightarrow> string option" where
  "headerBlock content =
     (if prefix [CHR ''-'', CHR ''-'', CHR ''-'', CHR 0x0D, CHR 0x0A] content
      then findClose (drop 5 content)
      else if prefix [CHR ''-'', CHR ''-'', CHR ''-'', CHR 0x0A] content
      then findClose (drop 4 content)
      else None)"

definition isAlpha :: "char \<Rightarrow> bool" where
  "isAlpha c = ((65 \<le> code c \<and> code c \<le> 90) \<or> (97 \<le> code c \<and> code c \<le> 122))"

definition isDigit :: "char \<Rightarrow> bool" where
  "isDigit c = (48 \<le> code c \<and> code c \<le> 57)"

text \<open>The class \<open>[\w-]\<close>.\<close>

definition isKeyChar :: "char \<Rightarrow> bool" where
  "isKeyChar c = (isAlpha c \<or> isDigit c \<or> c = CHR ''_'' \<or> c = CHR ''-'')"

text \<open>\<open>line.match(/^([a-zA-Z][\w-]*):\s*(.+)$/)\<close>, giving the two groups. The atom \<open>.\<close>
  does not match a line terminator, so a value that holds one matches nowhere; when only
  white space follows the colon, \<open>\s*\<close> gives back its last character to \<open>.+\<close>.\<close>

definition parseLine :: "string \<Rightarrow> (string \<times> string) option" where
  "parseLine line =
     (case line of
        [] \<Rightarrow> None
      | c # cs \<Rightarrow>
          if \<not> isAlpha c then None
          else
            (let key = c # takeWhile isKeyChar cs in
             case dropWhile isKeyChar cs of
               [] \<Rightarrow> None
             | d # rest \<Rightarrow>
                 if d \<noteq> CHR '':'' then None
                 else
                   (let ws = takeWhile isSpace rest; v = dropWhile isSpace rest in
                    if v \<noteq> [] then
                      (if list_all (\<lambda>x. \<not> isLineTerminator x) v then Some (key, v) else None)
                    else if ws \<noteq> [] \<and> \<not> isLineTerminator (last ws) then Some (key, [last ws])
                    else None)))"

definition isQuote :: "char \<Rightarrow> bool" where
  "isQuote c = (c = CHR 0x22 \<or> c = CHR 0x27)"

text \<open>\<open>v.replace(/^["']|["']$/g, "")\<close>\<close>

definition stripQuotes :: "string \<Rightarrow> string" where
  "stripQuotes v =
     (let v1 = (case v of [] \<Rightarrow> [] | c # cs \<Rightarrow> if isQuote c then cs else v)
      in if v1 \<noteq> [] \<and> isQuote (last v1) then butlast v1 else v1)"

definition frontmatterLines :: "string list \<Rightarrow> (string \<rightharpoonup> string)" where
  "frontmatterLines ls =
     fold (\<lambda>line result.
             case parseLine line of
               None \<Rightarrow> result
             | Some (k, v) \<Rightarrow> result(k \<mapsto> stripQuotes v))
          ls Map.empty"

definition extractFrontmatter :: "string \<Rightarrow> (string \<rightharpoonup> string)" where
  "extractFrontmatter content =
     (case headerBlock content of
        None \<Rightarrow> Map.empty
      | Some block \<Rightarrow> frontmatterLines (splitOn (CHR 0x0A) block))"

definition parseBool :: "string option \<Rightarrow> bool \<Rightarrow> bool" where
  "parseBool val fallback =
     (case val of
        None \<Rightarrow> fallback
      | Some x \<Rightarrow>
          (let v = toLowerCase (trim x) in
           if v = ''true'' \<or> v = ''yes'' \<or> v = ''1'' then True
           else if v = ''false'' \<or> v = ''no'' \<or> v = ''0'' then False
           else fallback))"

subsection \<open>Scanning\<close>

text \<open>\<open>a || b\<close> on strings: the empty string is falsy.\<close>

definition orElse :: "string \<Rightarrow> string \<Rightarrow> string" where
  "orElse a b = (if a \<noteq> [] then a else b)"

definition optTrim :: "string option \<Rightarrow> string" where
  "optTrim v = (case v of None \<Rightarrow> [] | Some x \<Rightarrow> trim x)"

definition loadSkillFromFile :: "fsnode \<Rightarrow> string \<Rightarrow> string \<Rightarrow> string \<Rightarrow> Skill option" where
  "loadSkillFromFile fs file base src =
     (case readFile fs file of
        None \<Rightarrow> None
      | Some content \<Rightarrow>
          (let fm = extractFrontmatter content;
               nm = orElse (optTrim (fm ''name''))
                      (orElse (toLowerCase (basename base)) (toLowerCase (basenameExt file ''.md'')));
               desc = orElse (optTrim (fm ''description'')) []
           in if desc = [] then None
              else Some \<lparr> name = nm, description = desc, filePath = pathResolve file,
                          baseDir = pathResolve base, source = src,
                          disableModelInvocation =
                            parseBool (fm ''disable-model-invocation'') False \<rparr>))"

definition skipEntry :: "string \<Rightarrow> bool" where
  "skipEntry ename = (prefix ''.'' ename \<or> ename = ''node_modules'')"

definition optList :: "'a option \<Rightarrow> 'a list" where
  "optList x = (case x of None \<Rightarrow> [] | Some y \<Rightarrow> [y])"

text \<open>\<open>scanSubdirs\<close> lists the directory at \<open>dir\<close>, whose node is passed along; a node
  that is no directory or cannot be listed makes \<open>readdir\<close> fail, which is caught.\<close>

fun scanSubdirs :: "fsnode \<Rightarrow> string \<Rightarrow> fsnode \<Rightarrow> string \<Rightarrow> Skill list" where
  "scanSubdirs fs dir (FFile c) src = []"
| "scanSubdirs fs dir (FDir listable entries) src =
     (if \<not> listable then []
      else concat (map (\<lambda>(ename, child).
             if skipEntry ename then []
             else if \<not> isDirectory child then []
             else (let fullPath = pathJoin dir ename
                   in optList (loadSkillFromFile fs (pathJoin fullPath ''SKILL.md'') fullPath src)
                      @ scanSubdirs fs fullPath child src)) entries))"

definition scanEntry :: "fsnode \<Rightarrow> string \<Rightarrow> string \<Rightarrow> string \<times> fsnode \<Rightarrow> Skill list" where
  "scanEntry fs dir src e =
     (case e of (ename, child) \<Rightarrow>
        if skipEntry ename then []
        else (let fullPath = pathJoin dir ename in
              if isDirectory child then
                optList (loadSkillFromFile fs (pathJoin fullPath ''SKILL.md'') fullPath src)
                @ scanSubdirs fs fullPath child src
              else if suffix ''.md'' ename then optList (loadSkillFromFile fs fullPath dir src)
              else []))"

text \<open>\<open>fs.readdir(dir, {withFileTypes: true})\<close>: \<open>None\<close> when the call rejects (no such
  path, not a directory, not listable).\<close>

definition readdir :: "fsnode \<Rightarrow> string \<Rightarrow> (string \<times> fsnode) list option" where
  "readdir fs dir =
     (case lookupPath fs (splitPath dir) of
        Some (FDir True entries) \<Rightarrow> Some entries
      | _ \<Rightarrow> None)"

definition loadSkillsFromDir :: "fsnode \<Rightarrow> string \<Rightarrow> string \<Rightarrow> Skill list" where
  "loadSkillsFromDir fs dir src =
     (case readdir fs dir of
        None \<Rightarrow> []
      | Some entries \<Rightarrow> concat (map (scanEntry fs dir src) entries))"

subsection \<open>Prompt formatting\<close>

definition xmlEscapeChar :: "char \<Rightarrow> string" where
  "xmlEscapeChar ch =
     (if ch = CHR ''&'' then ''&amp;''
      else if ch = CHR ''<'' then ''&lt;''
      else if ch = CHR ''>'' then ''&gt;''
      else if ch = CHR 0x22 then ''&quot;''
      else if ch = CHR 0x27 then ''&apos;''
      else [ch])"

definition escapeXml :: "string \<Rightarrow> string" where
  "escapeXml str = concat (map xmlEscapeChar str)"





section \<open>Skill orchestration\<close>

record SkillInvocationPolicy =
  userInvocable :: bool
  policyDisableModelInvocation :: bool

record SkillEntry =
  skill :: Skill
  frontmatter :: "string \<rightharpoonup> string"
  invocation :: SkillInvocationPolicy

text \<open>The fields \<open>name\<close> and \<open>description\<close> of a command are \<open>cname\<close> and
  \<open>cdescription\<close> here, the plain names being those of \<^typ>\<open>Skill\<close>.\<close>

record SkillCommandSpec =
  cname :: string
  skillName :: string
  cdescription :: string

record SkillMatch =
  command :: SkillCommandSpec
  args :: "string option"

definition parseFrontmatter :: "string \<Rightarrow> (string \<rightharpoonup> string)" where
  "parseFrontmatter content =
     (case headerBlock content of
        None \<Rightarrow> Map.empty
      | Some block \<Rightarrow> frontmatterLines (splitOn (CHR 0x0A) block))"

definition resolveInvocationPolicy :: "(string \<rightharpoonup> string) \<Rightarrow> SkillInvocationPolicy" where
  "resolveInvocationPolicy fm =
     \<lparr> userInvocable = parseBool (fm ''user-invocable'') True,
       policyDisableModelInvocation = parseBool (fm ''disable-model-invocation'') False \<rparr>"

subsection \<open>Loading and merging\<close>

text \<open>\<open>Map.prototype.set\<close> on a map kept as the list of its entries in insertion order: an
  existing key keeps its place and takes the new value, a new key goes to the end.\<close>

fun mapSet :: "'k \<Rightarrow> 'v \<Rightarrow> ('k \<times> 'v) list \<Rightarrow> ('k \<times> 'v) list" where
  "mapSet k v [] = [(k, v)]"
| "mapSet k v (e # m) = (if fst e = k then (k, v) # m else e # mapSet k v m)"

definition mergeSkills :: "Skill list \<Rightarrow> Skill list \<Rightarrow> (string \<times> Skill) list" where
  "mergeSkills managedSkills workspaceSkills =
     fold (\<lambda>s merged. mapSet (name s) s merged) workspaceSkills
       (fold (\<lambda>s merged. mapSet (name s) s merged) managedSkills [])"

definition enrich :: "fsnode \<Rightarrow> Skill \<Rightarrow> SkillEntry" where
  "enrich fs s =
     (let fm = (case readFile fs (filePath s) of
                  None \<Rightarrow> Map.empty
                | Some raw \<Rightarrow> parseFrontmatter raw)
      in \<lparr> skill = s, frontmatter = fm, invocation = resolveInvocationPolicy fm \<rparr>)"

definition loadSkillEntries :: "fsnode \<Rightarrow> string \<Rightarrow> string \<Rightarrow> SkillEntry list" where
  "loadSkillEntries fs workspaceDir managedDir =
     (let managedSkills = loadSkillsFromDir fs managedDir ''managed'';
          workspaceSkillsDir = pathJoin workspaceDir ''skills'';
          workspaceSkills = loadSkillsFromDir fs workspaceSkillsDir ''workspace'';
          merged = mergeSkills managedSkills workspaceSkills
      in map (\<lambda>(k, s). enrich fs s) merged)"

subsection \<open>Command names\<close>

definition COMMAND_MAX_LENGTH :: nat where
  "COMMAND_MAX_LENGTH = 32"

definition COMMAND_FALLBACK :: string where
  "COMMAND_FALLBACK = ''skill''"

definition DESCRIPTION_MAX_LENGTH :: nat where
  "DESCRIPTION_MAX_LENGTH = 100"

text \<open>The class \<open>[a-z0-9_]\<close>.\<close>

definition isCommandChar :: "char \<Rightarrow> bool" where
  "isCommandChar c = ((97 \<le> code c \<and> code c \<le> 122) \<or> isDigit c \<or> c = CHR ''_'')"

text \<open>\<open>s.replace(/X+/g, rep)\<close> for a character class \<open>X\<close>: every maximal run of
  characters of the class becomes \<open>rep\<close>.\<close>

function replaceRuns :: "(char \<Rightarrow> bool) \<Rightarrow> string \<Rightarrow> string \<Rightarrow> string" where
  "replaceRuns P rep [] = []"
| "replaceRuns P rep (c # cs) =
     (if P c then rep @ replaceRuns P rep (dropWhile P cs) else c # replaceRuns P rep cs)"
  by pat_completeness auto
termination
  by (relation "measure (\<lambda>(P, rep, s). length s)")
     (auto simp: length_dropWhile_le less_Suc_eq_le)

text \<open>The value of \<open>normalized\<close> in \<open>sanitizeCommandName\<close>: lower-case, then the three
  \<open>replace\<close> calls.\<close>

definition sanitizeNormalized :: "string \<Rightarrow> string" where
  "sanitizeNormalized raw =
     stripEnds (\<lambda>c. c = CHR ''_'')
       (replaceRuns (\<lambda>c. c = CHR ''_'') ''_''
         (replaceRuns (\<lambda>c. \<not> isCommandChar c) ''_'' (toLowerCase raw)))"

definition sanitizeCommandName :: "string \<Rightarrow> string" where
  "sanitizeCommandName raw =
     (let normalized = sanitizeNormalized raw
      in orElse (take COMMAND_MAX_LENGTH normalized) COMMAND_FALLBACK)"

text \<open>The decimal numeral of a number, as the template literal prints it.\<close>

fun showNat :: "nat \<Rightarrow> string" where
  "showNat n =
     (if n < 10 then [char_of (48 + n)]
      else showNat (n div 10) @ [char_of (48 + n mod 10)])"

definition candidateName :: "string \<Rightarrow> nat \<Rightarrow> string" where
  "candidateName base i =
     (let suffix = ''_'' @ showNat i;
          maxBase = max 1 (COMMAND_MAX_LENGTH - length suffix)
      in take maxBase base @ suffix)"

function resolveLoop :: "string \<Rightarrow> string set \<Rightarrow> nat \<Rightarrow> string" where
  "resolveLoop base used i =
     (if i < 1000 then
        (let candidate = candidateName base i in
         if toLowerCase candidate \<notin> used then candidate
         else resolveLoop base used (i + 1))
      else take (max 1 (COMMAND_MAX_LENGTH - 2)) base @ ''_x'')"
  by pat_completeness auto
termination
  by (relation "measure (\<lambda>(base, used, i). 1000 - i)") auto

definition resolveUniqueCommandName :: "string \<Rightarrow> string set \<Rightarrow> string" where
  "resolveUniqueCommandName base used =
     (if toLowerCase base \<notin> used then base else resolveLoop base used 2)"

text \<open>The ellipsis U+2026 is one code unit outside the range of \<^typ>\<open>char\<close>; it is
  written as the three bytes of its UTF-8 form. It occurs in descriptions only.\<close>

definition ellipsis :: string where
  "ellipsis = [CHR 0xE2, CHR 0x80, CHR 0xA6]"

definition commandDescription :: "Skill \<Rightarrow> string" where
  "commandDescription s =
     (let rawDesc = orElse (trim (description s)) (name s)
      in if length rawDesc > DESCRIPTION_MAX_LENGTH
         then take (DESCRIPTION_MAX_LENGTH - 1) rawDesc @ ellipsis
         else rawDesc)"

text \<open>The loop of \<open>buildSkillCommandSpecs\<close>, with the set \<open>used\<close> and the list \<open>specs\<close>
  as its state.\<close>

fun buildLoop :: "SkillEntry list \<Rightarrow> string set \<Rightarrow> SkillCommandSpec list \<Rightarrow> SkillCommandSpec list" where
  "buildLoop [] used specs = specs"
| "buildLoop (entry # rest) used specs =
     (let base = sanitizeCommandName (name (skill entry));
          unique = resolveUniqueCommandName base used
      in buildLoop rest (insert (toLowerCase unique) used)
           (specs @ [\<lparr> cname = unique, skillName = name (skill entry),
                       cdescription = commandDescription (skill entry) \<rparr>]))"

definition buildSkillCommandSpecs :: "SkillEntry list \<Rightarrow> SkillCommandSpec list" where
  "buildSkillCommandSpecs entries =
     buildLoop (filter (\<lambda>e. userInvocable (invocation e) \<noteq> False) entries) {} []"

subsection \<open>Command matching\<close>

definition normalizeForLookup :: "string \<Rightarrow> string" where
  "normalizeForLookup v =
     replaceRuns (\<lambda>c. isSpace c \<or> c = CHR ''_'') ''-'' (toLowerCase (trim v))"

definition findSkillCommand :: "SkillCommandSpec list \<Rightarrow> string \<Rightarrow> SkillCommandSpec option" where
  "findSkillCommand commands rawName =
     (let trimmed = trim rawName in
      if trimmed = [] then None
      else
        (let lowered = toLowerCase trimmed;
             normalized = normalizeForLookup trimmed
         in find (\<lambda>entry.
                    if toLowerCase (cname entry) = lowered then True
                    else if toLowerCase (skillName entry) = lowered then True
                    else (normalizeForLookup (cname entry) = normalized
                          \<or> normalizeForLookup (skillName entry) = normalized))
                 commands))"

text \<open>The groups of \<open>/^([^\s]+)(?:\s+([\s\S]+))?$/\<close>: a first token without white space,
  then, when white space follows, the text after it. Text that is all white space after the
  token matches only when it has two characters or more, the last one being the second
  group.\<close>

definition tokenRest :: "string \<Rightarrow> (string \<times> string option) option" where
  "tokenRest s =
     (let tok = takeWhile (\<lambda>c. \<not> isSpace c) s;
          rem = dropWhile (\<lambda>c. \<not> isSpace c) s
      in if tok = [] then None
         else if rem = [] then Some (tok, None)
         else
           (let ws = takeWhile isSpace rem; body = dropWhile isSpace rem
            in if body \<noteq> [] then Some (tok, Some body)
               else if length ws \<ge> 2 then Some (tok, Some [last ws])
               else None))"

text \<open>\<open>/^\/([^\s]+)(?:\s+([\s\S]+))?$/\<close>\<close>

definition slashTokenRest :: "string \<Rightarrow> (string \<times> string option) option" where
  "slashTokenRest s = (case s of [] \<Rightarrow> None | c # cs \<Rightarrow> if c = CHR ''/'' then tokenRest cs else None)"

text \<open>\<open>x?.trim() || undefined\<close>\<close>

definition trimmedArgs :: "string option \<Rightarrow> string option" where
  "trimmedArgs x = (case x of None \<Rightarrow> None | Some a \<Rightarrow> if trim a = [] then None else Some (trim a))"

text \<open>The branch taken when the command name is the keyword \<open>skill\<close>.\<close>

definition keywordDispatch :: "string option \<Rightarrow> SkillCommandSpec list \<Rightarrow> SkillMatch option" where
  "keywordDispatch m2 commands =
     (case map_option trim m2 of
        None \<Rightarrow> None
      | Some remainder \<Rightarrow>
          if remainder = [] then None
          else
            (case tokenRest remainder of
               None \<Rightarrow> None
             | Some (s1, s2) \<Rightarrow>
                 (case findSkillCommand commands s1 of
                    None \<Rightarrow> None
                  | Some cmd \<Rightarrow> Some \<lparr> command = cmd, args = trimmedArgs s2 \<rparr>)))"

text \<open>The branch taken otherwise: strict comparison with the command names.\<close>

definition directDispatch ::
  "string \<Rightarrow> string option \<Rightarrow> SkillCommandSpec list \<Rightarrow> SkillMatch option" where
  "directDispatch commandName m2 commands =
     (case find (\<lambda>entry. toLowerCase (cname entry) = commandName) commands of
        None \<Rightarrow> None
      | Some cmd \<Rightarrow> Some \<lparr> command = cmd, args = trimmedArgs m2 \<rparr>)"

definition resolveCommandInvocation :: "string \<Rightarrow> SkillCommandSpec list \<Rightarrow> SkillMatch option" where
  "resolveCommandInvocation input commands =
     (let trimmed = trim input in
      if \<not> prefix ''/'' trimmed then None
      else
        (case slashTokenRest trimmed of
           None \<Rightarrow> None
         | Some (m1, m2) \<Rightarrow>
             (let commandName = toLowerCase (trim m1) in
              if commandName = [] then None
              else if commandName = ''skill'' then keywordDispatch m2 commands
              else directDispatch commandName m2 commands)))"

text \<open>The property of a command list that a command repeating the name of an earlier one
  (case-insensitively) carries the fallback name of its own base.\<close>

definition repeatsAreFallbacks :: "SkillCommandSpec list \<Rightarrow> bool" where
  "repeatsAreFallbacks specs =
     (\<forall>j<length specs. \<forall>i<j.
        toLowerCase (cname (specs ! i)) = toLowerCase (cname (specs ! j))
        \<longrightarrow> cname (specs ! j) = take 30 (sanitizeCommandName (skillName (specs ! j))) @ ''_x'')"

subsection \<open>Example data\<close>

text \<open>An entry as the loader builds it for a skill file whose header holds a name and a
  description only.\<close>

definition plainEntry :: "string \<Rightarrow> string \<Rightarrow> string \<Rightarrow> string \<Rightarrow> SkillEntry" where
  "plainEntry n d file src =
     \<lparr> skill = \<lparr> name = n, description = d, filePath = file, baseDir = ''/skills'',
                 source = src, disableModelInvocation = False \<rparr>,
       frontmatter = [''name'' \<mapsto> n, ''description'' \<mapsto> d],
       invocation = \<lparr> userInvocable = True, policyDisableModelInvocation = False \<rparr> \<rparr>"

text \<open>The text of a skill file with a header of two keys.\<close>

definition skillFile :: "string \<Rightarrow> string \<Rightarrow> string" where
  "skillFile n d =
     ''---'' @ [CHR 0x0A] @ ''name: '' @ n @ [CHR 0x0A] @ ''description: '' @ d @ [CHR 0x0A]
     @ ''---'' @ [CHR 0x0A] @ ''Body.'' @ [CHR 0x0A]"

text \<open>A list of \<open>n\<close> entries with pairwise different skill names that all sanitize to \<open>a\<close>: the
  names are \<open>a\<close>, \<open>a!\<close>, \<open>a!!\<close> and so on.\<close>

definition collidingEntries :: "nat \<Rightarrow> SkillEntry list" where
  "collidingEntries n =
     map (\<lambda>k. plainEntry (''a'' @ replicate k (CHR ''!'')) ''d'' ''/skills/x/SKILL.md'' ''managed'')
         [0..<n]"

text \<open>The names the loop of \<open>buildSkillCommandSpecs\<close> has used after \<open>k\<close> entries of base
  \<open>a\<close>, and the name it gives to the \<open>j\<close>-th of them (counted from 1, for \<open>j\<close> above 1).\<close>

definition usedAfter :: "nat \<Rightarrow> string set" where
  "usedAfter k =
     insert ''a'' ((\<lambda>i. candidateName ''a'' i) ` {2..min k 999})
     \<union> (if 1000 \<le> k then {''a_x''} else {})"

definition nameOfNth :: "nat \<Rightarrow> string" where
  "nameOfNth j = (if j < 1000 then candidateName ''a'' j else ''a_x'')"

section \<open>Properties of the string functions\<close>

lemma isSpace_lowerChar [simp]: "isSpace (lowerChar c) = isSpace c"
  by (auto simp: isSpace_def lowerChar_def isUpper_def code_def)

lemma lowerChar_idem [simp]: "lowerChar (lowerChar c) = lowerChar c"
  by (auto simp: lowerChar_def isUpper_def code_def)

lemma toLowerCase_idem [simp]: "toLowerCase (toLowerCase s) = toLowerCase s"
  by (simp add: toLowerCase_def)

lemma toLowerCase_Nil [simp]: "toLowerCase [] = []"
  by (simp add: toLowerCase_def)

lemma toLowerCase_append [simp]: "toLowerCase (a @ b) = toLowerCase a @ toLowerCase b"
  by (simp add: toLowerCase_def)

lemma dropWhile_isSpace_lower:
  "dropWhile isSpace (map lowerChar s) = map lowerChar (dropWhile isSpace s)"
  by (induction s) auto

lemma trim_toLowerCase: "trim (toLowerCase s) = toLowerCase (trim s)"
  by (simp add: trim_def stripEnds_def toLowerCase_def dropWhile_isSpace_lower rev_map)

lemma dropWhile_noop: "xs = [] \<or> \<not> P (hd xs) \<Longrightarrow> dropWhile P xs = xs"
  by (cases xs) auto

lemma stripEnds_split:
  "dropWhile P s = stripEnds P s @ rev (takeWhile P (rev (dropWhile P s)))"
  unfolding stripEnds_def
  by (metis rev_append rev_rev_ident takeWhile_dropWhile_id)

lemma stripEnds_hd: "stripEnds P s \<noteq> [] \<Longrightarrow> \<not> P (hd (stripEnds P s))"
proof -
  assume a: "stripEnds P s \<noteq> []"
  then have "hd (stripEnds P s) = hd (dropWhile P s)"
    by (metis stripEnds_split hd_append2)
  moreover from a have "dropWhile P s \<noteq> []"
    by (metis stripEnds_split append_is_Nil_conv)
  ultimately show ?thesis
    by (simp add: hd_dropWhile)
qed

lemma stripEnds_last: "stripEnds P s \<noteq> [] \<Longrightarrow> \<not> P (last (stripEnds P s))"
  unfolding stripEnds_def
  by (metis hd_dropWhile last_rev rev_is_Nil_conv)

lemma stripEnds_noop: "s = [] \<or> (\<not> P (hd s) \<and> \<not> P (last s)) \<Longrightarrow> stripEnds P s = s"
  unfolding stripEnds_def
  by (cases "s = []") (simp_all add: dropWhile_noop hd_rev)

lemma stripEnds_idem [simp]: "stripEnds P (stripEnds P s) = stripEnds P s"
  by (rule stripEnds_noop) (use stripEnds_hd stripEnds_last in blast)

lemma set_stripEnds: "set (stripEnds P s) \<subseteq> set s"
proof
  fix x assume "x \<in> set (stripEnds P s)"
  then have "x \<in> set (dropWhile P (rev (dropWhile P s)))"
    by (simp add: stripEnds_def)
  then have "x \<in> set (rev (dropWhile P s))"
    by (rule set_dropWhileD)
  then have "x \<in> set (dropWhile P s)"
    by simp
  then show "x \<in> set s"
    by (rule set_dropWhileD)
qed

lemma trim_idem [simp]: "trim (trim s) = trim s"
  by (simp add: trim_def)

lemma trim_noop: "s = [] \<or> (\<not> isSpace (hd s) \<and> \<not> isSpace (last s)) \<Longrightarrow> trim s = s"
  by (simp add: trim_def stripEnds_noop)

section \<open>Properties of the tool policy\<close>

lemma normalizeToolName_idem [simp]:
  "normalizeToolName (normalizeToolName n) = normalizeToolName n"
  by (simp add: normalizeToolName_def trim_toLowerCase)

lemma escapeRegExp_Cons:
  "escapeRegExp (c # cs) = (if isRegexSpecial c then [bslash, c] else [c]) @ escapeRegExp cs"
  by (simp add: escapeRegExp_def)

lemma escapeRegExp_Nil [simp]: "escapeRegExp [] = []"
  by (simp add: escapeRegExp_def)

lemma special_simps [simp]:
  "isRegexSpecial (CHR ''*'')" "isRegexSpecial bslash" "isRegexSpecial (CHR ''.'')"
  "bslash \<noteq> CHR ''*''" "bslash \<noteq> CHR ''.''" "CHR ''*'' \<noteq> bslash" "CHR ''.'' \<noteq> bslash"
  by (simp_all add: isRegexSpecial_def bslash_def)

lemma escapeRegExp_no_star_head:
  "escapeRegExp cs = x # xs \<Longrightarrow> x \<noteq> CHR ''*''"
  by (cases cs) (auto simp: escapeRegExp_Cons split: if_splits)

text \<open>Replacing the escaped wildcard acts on each character of the pattern on its own: the
  backslash before a star is always that star's own escape.\<close>

lemma replaceAll_escape:
  "replaceAll [bslash, CHR ''*''] ''.*'' (escapeRegExp (c # cs)) =
     (if c = CHR ''*'' then ''.*''
      else if isRegexSpecial c then [bslash, c] else [c])
     @ replaceAll [bslash, CHR ''*''] ''.*'' (escapeRegExp cs)"
proof (cases "escapeRegExp cs")
  case Nil
  then show ?thesis by (auto simp: escapeRegExp_Cons)
next
  case (Cons x xs)
  then have "x \<noteq> CHR ''*''" by (rule escapeRegExp_no_star_head)
  with Cons show ?thesis by (auto simp: escapeRegExp_Cons)
qed

lemma replaceAll_escape_concat:
  "replaceAll [bslash, CHR ''*''] ''.*'' (escapeRegExp q) =
     concat (map (\<lambda>c. if c = CHR ''*'' then ''.*''
                       else if isRegexSpecial c then [bslash, c] else [c]) q)"
proof (induction q)
  case Nil
  show ?case by simp
next
  case (Cons c cs)
  then show ?case by (simp only: replaceAll_escape list.map concat.simps)
qed

lemma parseAtoms_compiled:
  "parseAtoms (replaceAll [bslash, CHR ''*''] ''.*'' (escapeRegExp q)) = Some (map atomOf q)"
proof (induction q)
  case Nil
  show ?case by simp
next
  case (Cons c cs)
  show ?case
  proof (cases "replaceAll [bslash, CHR ''*''] ''.*'' (escapeRegExp cs)")
    case Nil
    with Cons show ?thesis
      by (auto simp: replaceAll_escape atomOf_def)
  next
    case (Cons x xs)
    with Cons.IH show ?thesis
      by (auto simp: replaceAll_escape atomOf_def)
  qed
qed

lemma new_RegExp_regexSource: "new_RegExp (regexSource q) = Some (map atomOf q)"
  by (simp add: new_RegExp_def regexSource_def parseAtoms_compiled)

lemma compilePattern_Some:
  "compilePattern p =
     Some (let q = normalizeToolName p in
           if q = [] then Exact []
           else if q = ''*'' then All
           else if CHR ''*'' \<notin> set q then Exact q
           else Regex (map atomOf q))"
  by (simp add: compilePattern_def Let_def new_RegExp_regexSource)

lemma matchesAny_Cons: "matchesAny n (c # cs) = (matchesAny n [c] \<or> matchesAny n cs)"
  by (cases c) auto

lemma compilePatterns_Some:
  "\<exists>cs. compilePatterns ps = Some cs \<and> length cs = length ps
        \<and> (\<forall>n. matchesAny n cs = (\<exists>p\<in>set ps. matchesPattern n p))"
proof (induction ps)
  case Nil
  show ?case by simp
next
  case (Cons p ps)
  then obtain cs where cs: "compilePatterns ps = Some cs" "length cs = length ps"
    "\<forall>n. matchesAny n cs = (\<exists>p\<in>set ps. matchesPattern n p)" by blast
  obtain c where c: "compilePattern p = Some c"
    using compilePattern_Some by blast
  have "\<forall>n. matchesAny n (c # cs) = (\<exists>p\<in>set (p # ps). matchesPattern n p)"
    using cs(3) c matchesAny_Cons[of _ c cs] by (simp add: matchesPattern_def)
  with cs c show ?case by simp
qed

lemma regexTest_literals: "CHR ''*'' \<notin> set q \<Longrightarrow> regexTest (map atomOf q) n = (n = q)"
proof (induction q arbitrary: n)
  case Nil
  show ?case by simp
next
  case (Cons c cs)
  then have c: "atomOf c = Lit c" and cs: "CHR ''*'' \<notin> set cs"
    by (auto simp: atomOf_def)
  from Cons.IH[OF cs] show ?case
    by (cases n) (simp_all add: c eq_commute)
qed

lemma matchesPattern_regexTest:
  "matchesPattern n p =
     (normalizeToolName p = ''*'' \<or> regexTest (map atomOf (normalizeToolName p)) n)"
proof (cases "normalizeToolName p = ''*''")
  case True
  then show ?thesis
    by (simp add: matchesPattern_def compilePattern_Some)
next
  case False
  show ?thesis
  proof (cases "CHR ''*'' \<in> set (normalizeToolName p)")
    case True
    with False show ?thesis
      by (auto simp: matchesPattern_def compilePattern_Some Let_def)
  next
    case star: False
    then show ?thesis
      using False by (auto simp: matchesPattern_def compilePattern_Some Let_def regexTest_literals)
  qed
qed

lemma regexTest_AnyStar_run:
  "\<forall>c\<in>set n1. \<not> isLineTerminator c \<Longrightarrow> regexTest r n2 \<Longrightarrow> regexTest (AnyStar # r) (n1 @ n2)"
  by (induction n1) auto

lemma regexTest_AnyStar_split:
  "regexTest (AnyStar # r) n \<Longrightarrow>
     \<exists>n1 n2. n = n1 @ n2 \<and> (\<forall>c\<in>set n1. \<not> isLineTerminator c) \<and> regexTest r n2"
proof (induction n)
  case Nil
  then show ?case by auto
next
  case (Cons x xs)
  show ?case
  proof (cases "regexTest r (x # xs)")
    case True
    then have "x # xs = [] @ (x # xs) \<and> (\<forall>c\<in>set []. \<not> isLineTerminator c) \<and> regexTest r (x # xs)"
      by simp
    then show ?thesis by blast
  next
    case False
    with Cons.prems have a: "\<not> isLineTerminator x" and b: "regexTest (AnyStar # r) xs" by auto
    from Cons.IH[OF b] obtain n1 n2 where
      "xs = n1 @ n2" "\<forall>c\<in>set n1. \<not> isLineTerminator c" "regexTest r n2" by blast
    with a have "x # xs = (x # n1) @ n2 \<and> (\<forall>c\<in>set (x # n1). \<not> isLineTerminator c) \<and> regexTest r n2"
      by simp
    then show ?thesis by blast
  qed
qed

text \<open>Matching a concatenation of atom lists splits the name in two.\<close>

lemma regexTest_append:
  "regexTest (xs @ ys) n = (\<exists>n1 n2. n = n1 @ n2 \<and> regexTest xs n1 \<and> regexTest ys n2)"
proof (induction xs arbitrary: n)
  case Nil
  then show ?case by simp
next
  case (Cons a xs)
  show ?case
  proof (cases a)
    case (Lit c)
    show ?thesis
    proof
      assume "regexTest ((a # xs) @ ys) n"
      with Lit obtain t where n: "n = c # t" and "regexTest (xs @ ys) t"
        by (auto split: list.splits)
      with Cons.IH obtain n1 n2 where "t = n1 @ n2" "regexTest xs n1" "regexTest ys n2" by blast
      with n Lit have "n = (c # n1) @ n2 \<and> regexTest (a # xs) (c # n1) \<and> regexTest ys n2" by simp
      then show "\<exists>n1 n2. n = n1 @ n2 \<and> regexTest (a # xs) n1 \<and> regexTest ys n2" by blast
    next
      assume "\<exists>n1 n2. n = n1 @ n2 \<and> regexTest (a # xs) n1 \<and> regexTest ys n2"
      then obtain n1 n2 where n: "n = n1 @ n2" "regexTest (a # xs) n1" "regexTest ys n2" by blast
      with Lit obtain t where "n1 = c # t" "regexTest xs t" by (auto split: list.splits)
      with n Lit Cons.IH show "regexTest ((a # xs) @ ys) n" by auto
    qed
  next
    case AnyStar
    show ?thesis
    proof
      assume "regexTest ((a # xs) @ ys) n"
      with AnyStar have "regexTest (AnyStar # (xs @ ys)) n" by simp
      from regexTest_AnyStar_split[OF this] obtain m1 m2 where
        m: "n = m1 @ m2" "\<forall>c\<in>set m1. \<not> isLineTerminator c" "regexTest (xs @ ys) m2" by blast
      with Cons.IH obtain k1 k2 where k: "m2 = k1 @ k2" "regexTest xs k1" "regexTest ys k2" by blast
      from m(2) k(2) have "regexTest (AnyStar # xs) (m1 @ k1)" by (rule regexTest_AnyStar_run)
      with m k AnyStar have "n = (m1 @ k1) @ k2 \<and> regexTest (a # xs) (m1 @ k1) \<and> regexTest ys k2" by simp
      then show "\<exists>n1 n2. n = n1 @ n2 \<and> regexTest (a # xs) n1 \<and> regexTest ys n2" by blast
    next
      assume "\<exists>n1 n2. n = n1 @ n2 \<and> regexTest (a # xs) n1 \<and> regexTest ys n2"
      then obtain n1 n2 where n: "n = n1 @ n2" "regexTest (a # xs) n1" "regexTest ys n2" by blast
      with AnyStar have "regexTest (AnyStar # xs) n1" by simp
      from regexTest_AnyStar_split[OF this] obtain m1 m2 where
        m: "n1 = m1 @ m2" "\<forall>c\<in>set m1. \<not> isLineTerminator c" "regexTest xs m2" by blast
      with n Cons.IH have "regexTest (xs @ ys) (m2 @ n2)" by blast
      with m(2) have "regexTest (AnyStar # (xs @ ys)) (m1 @ (m2 @ n2))" by (rule regexTest_AnyStar_run)
      with n m AnyStar show "regexTest ((a # xs) @ ys) n" by simp
    qed
  qed
qed

lemma isToolAllowed_Some:
  "isToolAllowed n (Some p) =
     Some (if (\<exists>d\<in>set (orEmpty (deny p)). matchesPattern (normalizeToolName n) d) then False
           else if orEmpty (allow p) = [] then True
           else (\<exists>a\<in>set (orEmpty (allow p)). matchesPattern (normalizeToolName n) a))"
proof -
  obtain dc where dc: "compilePatterns (orEmpty (deny p)) = Some dc"
    "\<forall>n. matchesAny n dc = (\<exists>d\<in>set (orEmpty (deny p)). matchesPattern n d)"
    using compilePatterns_Some by blast
  obtain ac where ac: "compilePatterns (orEmpty (allow p)) = Some ac"
    "length ac = length (orEmpty (allow p))"
    "\<forall>n. matchesAny n ac = (\<exists>a\<in>set (orEmpty (allow p)). matchesPattern n a)"
    using compilePatterns_Some by blast
  show ?thesis
    by (simp add: isToolAllowed_def Let_def dc ac)
qed

text \<open>
  C1. The decision of \<open>isToolAllowed\<close>: without a policy the tool is allowed. With one, the
  call returns (it never throws while compiling a pattern): denied when the normalized name
  matches some compiled deny pattern, whatever the allow list holds; otherwise allowed when
  the allow list is empty; otherwise allowed exactly when the name matches some compiled
  allow pattern. So \<open>exec\<close> is denied by the deny list \<open>exec*\<close>, and \<open>exec_python\<close> is denied
  by the deny list \<open>exec_python\<close> although the allow list \<open>exec*\<close> matches it.
\<close>

theorem isToolAllowed_decision:
  "isToolAllowed n None = Some True
   \<and> isToolAllowed n (Some p) =
       Some (if (\<exists>d\<in>set (orEmpty (deny p)). matchesPattern (normalizeToolName n) d) then False
             else if orEmpty (allow p) = [] then True
             else (\<exists>a\<in>set (orEmpty (allow p)). matchesPattern (normalizeToolName n) a))
   \<and> isToolAllowed ''exec'' (Some \<lparr>allow = None, deny = Some [''exec*'']\<rparr>) = Some False
   \<and> isToolAllowed ''exec_python''
         (Some \<lparr>allow = Some [''exec*''], deny = Some [''exec_python'']\<rparr>) = Some False"
proof -
  have a: "isToolAllowed n None = Some True"
    by (simp add: isToolAllowed_def)
  have b: "isToolAllowed ''exec'' (Some \<lparr>allow = None, deny = Some [''exec*'']\<rparr>) = Some False"
    by code_simp
  have c: "isToolAllowed ''exec_python''
         (Some \<lparr>allow = Some [''exec*''], deny = Some [''exec_python'']\<rparr>) = Some False"
    by code_simp
  show ?thesis
    by (intro conjI) (rule a, rule isToolAllowed_Some, rule b, rule c)
qed

theorem isToolAllowed_decision_witness:
  "isToolAllowed '' Read '' (Some \<lparr>allow = Some [''read'', ''write*''], deny = Some [''exec*'']\<rparr>)
     = Some True"
proof -
  have n: "normalizeToolName '' Read '' = ''read''" by code_simp
  have d: "\<not> matchesPattern ''read'' ''exec*''" by code_simp
  have a: "matchesPattern ''read'' ''read''" by code_simp
  show ?thesis
    using isToolAllowed_decision[of "'' Read ''"
        "\<lparr>allow = Some [''read'', ''write*''], deny = Some [''exec*'']\<rparr>"]
    by (simp add: orEmpty_def n d a)
qed

text \<open>
  C2. Compiling a pattern with a wildcard: the text given to the regular expression engine
  is the pattern with every star turned into \<open>.*\<close> and every other syntax character
  escaped, between \<open>^\<close> and \<open>$\<close>; the compiled pattern is one atom per character, a
  wildcard atom for a star and a literal atom for any other character. A name matches a
  pattern exactly when the pattern is the lone star or the atoms match the whole name, and
  a dot in the pattern is matched by a dot in the name only: the name splits at a dot into
  parts matched by the parts of the pattern before and after its dot. For the pattern
  \<open>a.b*\<close> the name \<open>a.bcd\<close> matches and \<open>axbcd\<close> does not.
\<close>

theorem compilePattern_wildcard_literal:
  "regexSource q =
     ''^'' @ concat (map (\<lambda>c. if c = CHR ''*'' then ''.*''
                             else if isRegexSpecial c then [bslash, c] else [c]) q) @ ''$''
   \<and> (CHR ''*'' \<in> set (normalizeToolName p) \<and> normalizeToolName p \<noteq> ''*''
        \<longrightarrow> compilePattern p = Some (Regex (map atomOf (normalizeToolName p))))
   \<and> matchesPattern n p =
       (normalizeToolName p = ''*'' \<or> regexTest (map atomOf (normalizeToolName p)) n)
   \<and> (normalizeToolName p = a @ CHR ''.'' # b \<and> matchesPattern n p
        \<longrightarrow> (\<exists>n1 n2. n = n1 @ CHR ''.'' # n2
              \<and> regexTest (map atomOf a) n1 \<and> regexTest (map atomOf b) n2))
   \<and> matchesPattern ''a.bcd'' ''a.b*''
   \<and> \<not> matchesPattern ''axbcd'' ''a.b*''"
proof -
  have src: "regexSource q =
     ''^'' @ concat (map (\<lambda>c. if c = CHR ''*'' then ''.*''
                             else if isRegexSpecial c then [bslash, c] else [c]) q) @ ''$''"
    by (simp only: regexSource_def Let_def replaceAll_escape_concat)
  have comp: "CHR ''*'' \<in> set (normalizeToolName p) \<and> normalizeToolName p \<noteq> ''*''
        \<longrightarrow> compilePattern p = Some (Regex (map atomOf (normalizeToolName p)))"
    by (auto simp: compilePattern_Some Let_def)
  have dot: "\<exists>n1 n2. n = n1 @ CHR ''.'' # n2
              \<and> regexTest (map atomOf a) n1 \<and> regexTest (map atomOf b) n2"
    if q: "normalizeToolName p = a @ CHR ''.'' # b" and m: "matchesPattern n p"
  proof -
    from q have "normalizeToolName p \<noteq> ''*''"
      by (cases a) auto
    with m q have "regexTest (map atomOf a @ Lit (CHR ''.'') # map atomOf b) n"
      by (simp add: matchesPattern_regexTest atomOf_def)
    then obtain n1 n2 where "n = n1 @ n2" "regexTest (map atomOf a) n1"
        "regexTest (Lit (CHR ''.'') # map atomOf b) n2"
      using regexTest_append by blast
    then show ?thesis
      by (cases n2) auto
  qed
  have e1: "matchesPattern ''a.bcd'' ''a.b*''" by code_simp
  have e2: "\<not> matchesPattern ''axbcd'' ''a.b*''" by code_simp
  show ?thesis
  proof (intro conjI)
    show "normalizeToolName p = a @ CHR ''.'' # b \<and> matchesPattern n p
        \<longrightarrow> (\<exists>n1 n2. n = n1 @ CHR ''.'' # n2
              \<and> regexTest (map atomOf a) n1 \<and> regexTest (map atomOf b) n2)"
      using dot by blast
  qed (rule src, rule comp, rule matchesPattern_regexTest, rule e1, rule e2)
qed

theorem compilePattern_wildcard_literal_witness:
  "compilePattern '' A.b* '' = Some (Regex [Lit (CHR ''a''), Lit (CHR ''.''), Lit (CHR ''b''), AnyStar])
   \<and> (\<exists>n1 n2. ''a.bcd'' = n1 @ CHR ''.'' # n2
        \<and> regexTest (map atomOf ''a'') n1 \<and> regexTest (map atomOf ''b*'') n2)"
proof -
  have q: "normalizeToolName '' A.b* '' = ''a.b*''" by code_simp
  have m: "matchesPattern ''a.bcd'' '' A.b* ''" by code_simp
  have s: "CHR ''*'' \<in> set ''a.b*'' \<and> ''a.b*'' \<noteq> ''*''" by simp
  have at: "map atomOf ''a.b*'' = [Lit (CHR ''a''), Lit (CHR ''.''), Lit (CHR ''b''), AnyStar]"
    by (simp add: atomOf_def)
  from compilePattern_wildcard_literal[of "[]" "'' A.b* ''" "''a.bcd''" "''a''" "''b*''"] q m s at
  show ?thesis by simp
qed

lemma stripEnds_padded:
  assumes l: "\<forall>c\<in>set l. P c" and r: "\<forall>c\<in>set r. P c"
  shows "stripEnds P (l @ n @ r) = stripEnds P n"
proof -
  have a: "dropWhile P (l @ n @ r) = dropWhile P (n @ r)"
    using l by (simp add: dropWhile_append2)
  show ?thesis
  proof (cases "\<forall>c\<in>set n. P c")
    case True
    with l r have b: "dropWhile P (l @ n @ r) = []" by simp
    from True have c: "dropWhile P n = []" by simp
    show ?thesis by (simp only: stripEnds_def b c)
  next
    case False
    then obtain x where "x \<in> set n" "\<not> P x" by blast
    then have "dropWhile P (n @ r) = dropWhile P n @ r"
      by (rule dropWhile_append1)
    with a have "rev (dropWhile P (l @ n @ r)) = rev r @ rev (dropWhile P n)"
      by simp
    moreover have "dropWhile P (rev r @ rev (dropWhile P n)) = dropWhile P (rev (dropWhile P n))"
      by (rule dropWhile_append2) (use r in simp)
    ultimately show ?thesis by (simp add: stripEnds_def)
  qed
qed

lemma isSpace_chars:
  "c \<in> {CHR '' '', CHR 0x09, CHR 0x0A, CHR 0x0B, CHR 0x0C, CHR 0x0D, CHR 0xA0} \<Longrightarrow> isSpace c"
  by (auto simp: isSpace_def code_def)

lemma normalizeToolName_padded:
  assumes "set l \<subseteq> {CHR '' '', CHR 0x09, CHR 0x0A, CHR 0x0B, CHR 0x0C, CHR 0x0D, CHR 0xA0}"
    and "set r \<subseteq> {CHR '' '', CHR 0x09, CHR 0x0A, CHR 0x0B, CHR 0x0C, CHR 0x0D, CHR 0xA0}"
  shows "normalizeToolName (l @ n @ r) = normalizeToolName n"
proof -
  from assms have "\<forall>c\<in>set l. isSpace c" and "\<forall>c\<in>set r. isSpace c"
    using isSpace_chars by blast+
  then have "trim (l @ n @ r) = trim n"
    unfolding trim_def by (rule stripEnds_padded)
  then show ?thesis by (simp add: normalizeToolName_def)
qed

lemma lowerChar_upper:
  assumes "65 \<le> (of_char c :: nat)" and "(of_char c :: nat) \<le> 90"
  shows "lowerChar c = char_of (of_char c + 32 :: nat)"
    and "lowerChar (char_of (of_char c + 32 :: nat)) = char_of (of_char c + 32 :: nat)"
  using assms by (simp_all add: lowerChar_def isUpper_def code_def)

lemma normalizeToolName_upper:
  assumes "65 \<le> (of_char c :: nat)" and "(of_char c :: nat) \<le> 90"
  shows "normalizeToolName (a @ c # b) = normalizeToolName (a @ char_of (of_char c + 32 :: nat) # b)"
proof -
  have "toLowerCase (a @ c # b) = toLowerCase (a @ char_of (of_char c + 32 :: nat) # b)"
    using lowerChar_upper[OF assms] by (simp add: toLowerCase_def)
  then have "trim (toLowerCase (a @ c # b)) = trim (toLowerCase (a @ char_of (of_char c + 32 :: nat) # b))"
    by simp
  then show ?thesis
    by (simp only: normalizeToolName_def trim_toLowerCase)
qed

lemma isToolAllowed_by_normalized:
  "normalizeToolName x = normalizeToolName y \<Longrightarrow> isToolAllowed x p = isToolAllowed y p"
  by (cases p) (simp_all add: isToolAllowed_def)

text \<open>
  C10. The queried name is trimmed and lower-cased before any matching: the decision for a
  name is the decision for its normalized form, which is the lower-cased trimmed name, under
  every policy (and without one). So the decision does not change when white space (space,
  TAB, LF, VT, FF, CR, NBSP) is put around the name, nor when a letter A-Z anywhere in it is
  replaced by its lower-case letter. The padded upper-case name \<open>EXEC\<close> is denied by the deny
  list \<open>exec*\<close> as \<open>exec\<close> is.
\<close>

theorem isToolAllowed_normalized_name:
  "isToolAllowed (normalizeToolName n) p = isToolAllowed n p
   \<and> normalizeToolName n = toLowerCase (trim n)
   \<and> isToolAllowed (toLowerCase (trim n)) p = isToolAllowed n p
   \<and> (set l \<subseteq> {CHR '' '', CHR 0x09, CHR 0x0A, CHR 0x0B, CHR 0x0C, CHR 0x0D, CHR 0xA0}
        \<and> set r \<subseteq> {CHR '' '', CHR 0x09, CHR 0x0A, CHR 0x0B, CHR 0x0C, CHR 0x0D, CHR 0xA0}
        \<longrightarrow> isToolAllowed (l @ n @ r) p = isToolAllowed n p)
   \<and> (65 \<le> (of_char c :: nat) \<and> (of_char c :: nat) \<le> 90
        \<longrightarrow> isToolAllowed (a @ c # b) p
            = isToolAllowed (a @ char_of (of_char c + 32 :: nat) # b) p)
   \<and> normalizeToolName [CHR 0x09, CHR '' '', CHR ''E'', CHR ''x'', CHR ''E'', CHR ''C'', CHR ''_'',
                          CHR ''P'', CHR ''y'', CHR '' '', CHR 0x0A] = ''exec_py''
   \<and> isToolAllowed ''  EXEC '' (Some \<lparr>allow = None, deny = Some [''exec*'']\<rparr>) = Some False
   \<and> isToolAllowed '' Read '' (Some \<lparr>allow = Some [''read''], deny = None\<rparr>) = Some True
   \<and> isToolAllowed ''r ead'' (Some \<lparr>allow = Some [''read''], deny = None\<rparr>) = Some False"
proof (intro conjI impI)
  show "isToolAllowed (normalizeToolName n) p = isToolAllowed n p"
    by (rule isToolAllowed_by_normalized) simp
  show "normalizeToolName n = toLowerCase (trim n)"
    by (rule normalizeToolName_def)
  show "isToolAllowed (toLowerCase (trim n)) p = isToolAllowed n p"
    by (rule isToolAllowed_by_normalized) (simp add: normalizeToolName_def trim_toLowerCase)
next
  assume "set l \<subseteq> {CHR '' '', CHR 0x09, CHR 0x0A, CHR 0x0B, CHR 0x0C, CHR 0x0D, CHR 0xA0}
        \<and> set r \<subseteq> {CHR '' '', CHR 0x09, CHR 0x0A, CHR 0x0B, CHR 0x0C, CHR 0x0D, CHR 0xA0}"
  then show "isToolAllowed (l @ n @ r) p = isToolAllowed n p"
    by (intro isToolAllowed_by_normalized normalizeToolName_padded) simp_all
next
  assume "65 \<le> (of_char c :: nat) \<and> (of_char c :: nat) \<le> 90"
  then show "isToolAllowed (a @ c # b) p = isToolAllowed (a @ char_of (of_char c + 32 :: nat) # b) p"
    by (intro isToolAllowed_by_normalized normalizeToolName_upper) simp_all
next
  show "normalizeToolName [CHR 0x09, CHR '' '', CHR ''E'', CHR ''x'', CHR ''E'', CHR ''C'', CHR ''_'',
                          CHR ''P'', CHR ''y'', CHR '' '', CHR 0x0A] = ''exec_py''"
    by code_simp
  show "isToolAllowed ''  EXEC '' (Some \<lparr>allow = None, deny = Some [''exec*'']\<rparr>) = Some False"
    by code_simp
  show "isToolAllowed '' Read '' (Some \<lparr>allow = Some [''read''], deny = None\<rparr>) = Some True"
    by code_simp
  show "isToolAllowed ''r ead'' (Some \<lparr>allow = Some [''read''], deny = None\<rparr>) = Some False"
    by code_simp
qed

theorem isToolAllowed_normalized_name_witness:
  "isToolAllowed ([CHR 0x09, CHR '' ''] @ ''exec'' @ [CHR '' '', CHR 0x0A])
       (Some \<lparr>allow = None, deny = Some [''exec*'']\<rparr>) = Some False
   \<and> isToolAllowed (''e'' @ CHR ''X'' # ''ec'')
       (Some \<lparr>allow = None, deny = Some [''exec*'']\<rparr>) = Some False"
proof -
  let ?p = "Some \<lparr>allow = None, deny = Some [''exec*'']\<rparr>"
  have e: "isToolAllowed ''exec'' ?p = Some False" by code_simp
  have u: "65 \<le> (of_char (CHR ''X'') :: nat) \<and> (of_char (CHR ''X'') :: nat) \<le> 90" by simp
  have x: "char_of (of_char (CHR ''X'') + 32 :: nat) = CHR ''x''" by code_simp
  have ws: "set [CHR 0x09, CHR '' '']
              \<subseteq> {CHR '' '', CHR 0x09, CHR 0x0A, CHR 0x0B, CHR 0x0C, CHR 0x0D, CHR 0xA0}
            \<and> set [CHR '' '', CHR 0x0A]
              \<subseteq> {CHR '' '', CHR 0x09, CHR 0x0A, CHR 0x0B, CHR 0x0C, CHR 0x0D, CHR 0xA0}"
    by simp
  note t = isToolAllowed_normalized_name[of "''exec''" ?p "[CHR 0x09, CHR '' '']"
      "[CHR '' '', CHR 0x0A]" "CHR ''X''" "''e''" "''ec''"]
  from t[THEN conjunct2, THEN conjunct2, THEN conjunct2, THEN conjunct1] ws
  have "isToolAllowed ([CHR 0x09, CHR '' ''] @ ''exec'' @ [CHR '' '', CHR 0x0A]) ?p
          = isToolAllowed ''exec'' ?p"
    by (rule mp)
  then have 1: "isToolAllowed ([CHR 0x09, CHR '' ''] @ ''exec'' @ [CHR '' '', CHR 0x0A]) ?p = Some False"
    by (simp only: e)
  from t[THEN conjunct2, THEN conjunct2, THEN conjunct2, THEN conjunct2, THEN conjunct1] u
  have "isToolAllowed (''e'' @ CHR ''X'' # ''ec'') ?p
          = isToolAllowed (''e'' @ char_of (of_char (CHR ''X'') + 32 :: nat) # ''ec'') ?p"
    by (rule mp)
  then have "isToolAllowed (''e'' @ CHR ''X'' # ''ec'') ?p = isToolAllowed (''e'' @ CHR ''x'' # ''ec'') ?p"
    by (simp only: x)
  then have 2: "isToolAllowed (''e'' @ CHR ''X'' # ''ec'') ?p = Some False"
    using e by simp
  show ?thesis
    by (intro conjI) (rule 1, rule 2)
qed

section \<open>Properties of command names\<close>

lemma set_replaceRuns: "set (replaceRuns P rep s) \<subseteq> set rep \<union> {c \<in> set s. \<not> P c}"
proof (induction P rep s rule: replaceRuns.induct)
  case (1 P rep)
  show ?case by simp
next
  case (2 P rep c cs)
  show ?case
  proof (cases "P c")
    case True
    with 2 have "set (replaceRuns P rep (dropWhile P cs)) \<subseteq> set rep \<union> {c \<in> set (dropWhile P cs). \<not> P c}"
      by simp
    moreover have "set (dropWhile P cs) \<subseteq> set cs"
      using set_dropWhileD by fastforce
    ultimately show ?thesis using True by auto
  next
    case False
    with 2 show ?thesis by auto
  qed
qed

lemma replaceRuns_all: "\<forall>c\<in>set s. P c \<Longrightarrow> replaceRuns P rep s = (if s = [] then [] else rep)"
proof (cases s)
  case Nil
  then show ?thesis by simp
next
  case (Cons c cs)
  assume "\<forall>c\<in>set s. P c"
  with Cons have c: "P c" and dw: "dropWhile P cs = []" by auto
  show ?thesis by (simp add: Cons c dw)
qed

lemma stripEnds_all: "\<forall>c\<in>set s. P c \<Longrightarrow> stripEnds P s = []"
proof -
  assume "\<forall>c\<in>set s. P c"
  then have dw: "dropWhile P s = []" by simp
  show ?thesis by (simp add: stripEnds_def dw)
qed

lemma isCommandChar_underscore [simp]: "isCommandChar (CHR ''_'')"
  by (simp add: isCommandChar_def)

lemma sanitizeNormalized_chars: "\<forall>c\<in>set (sanitizeNormalized raw). isCommandChar c"
proof -
  let ?a = "replaceRuns (\<lambda>c. \<not> isCommandChar c) ''_'' (toLowerCase raw)"
  let ?b = "replaceRuns (\<lambda>c. c = CHR ''_'') ''_'' ?a"
  have a: "\<forall>c\<in>set ?a. isCommandChar c"
    using set_replaceRuns[of "\<lambda>c. \<not> isCommandChar c" "''_''" "toLowerCase raw"] by auto
  have "set ?b \<subseteq> set ''_'' \<union> {c \<in> set ?a. \<not> c = CHR ''_''}"
    by (rule set_replaceRuns)
  with a have b: "\<forall>c\<in>set ?b. isCommandChar c" by auto
  have "set (sanitizeNormalized raw) \<subseteq> set ?b"
    unfolding sanitizeNormalized_def by (rule set_stripEnds)
  with b show ?thesis by blast
qed

lemma sanitizeNormalized_degenerate:
  assumes "\<forall>c\<in>set (toLowerCase raw). \<not> isCommandChar c \<or> c = CHR ''_''"
  shows "sanitizeNormalized raw = []"
proof -
  let ?a = "replaceRuns (\<lambda>c. \<not> isCommandChar c) ''_'' (toLowerCase raw)"
  let ?b = "replaceRuns (\<lambda>c. c = CHR ''_'') ''_'' ?a"
  have "set ?a \<subseteq> set ''_'' \<union> {c \<in> set (toLowerCase raw). \<not> \<not> isCommandChar c}"
    by (rule set_replaceRuns)
  with assms have a: "\<forall>c\<in>set ?a. c = CHR ''_''" by auto
  have "set ?b \<subseteq> set ''_'' \<union> {c \<in> set ?a. \<not> c = CHR ''_''}"
    by (rule set_replaceRuns)
  with a have "\<forall>c\<in>set ?b. c = CHR ''_''" by auto
  then show ?thesis
    unfolding sanitizeNormalized_def by (rule stripEnds_all)
qed

lemma sanitizeCommandName_cases:
  "sanitizeCommandName raw =
     (if sanitizeNormalized raw = [] then ''skill'' else take 32 (sanitizeNormalized raw))"
  by (simp add: sanitizeCommandName_def orElse_def COMMAND_MAX_LENGTH_def COMMAND_FALLBACK_def)

lemma skill_chars: "\<forall>c\<in>set ''skill''. isCommandChar c"
  by (simp add: isCommandChar_def code_def)

lemma sanitizeCommandName_chars: "\<forall>c\<in>set (sanitizeCommandName raw). isCommandChar c"
proof (cases "sanitizeNormalized raw = []")
  case True
  then have "sanitizeCommandName raw = ''skill''"
    by (simp add: sanitizeCommandName_cases)
  then show ?thesis
    using skill_chars by (simp only:)
next
  case False
  have "set (take 32 (sanitizeNormalized raw)) \<subseteq> set (sanitizeNormalized raw)"
    by (rule set_take_subset)
  with False sanitizeNormalized_chars[of raw] show ?thesis
    by (auto simp: sanitizeCommandName_cases)
qed

lemma sanitizeCommandName_length:
  "1 \<le> length (sanitizeCommandName raw) \<and> length (sanitizeCommandName raw) \<le> 32"
  by (cases "sanitizeNormalized raw") (simp_all add: sanitizeCommandName_cases)

text \<open>
  C4. For every input string the sanitized command name has between 1 and 32 characters,
  all of them in \<open>[a-z0-9_]\<close>. An input that normalizes to the empty string gives the
  literal \<open>skill\<close>; this is so for every input without a letter or a digit.
\<close>

theorem sanitizeCommandName_shape:
  "1 \<le> length (sanitizeCommandName raw)
   \<and> length (sanitizeCommandName raw) \<le> 32
   \<and> (\<forall>c\<in>set (sanitizeCommandName raw). isCommandChar c)
   \<and> (sanitizeNormalized raw = [] \<longrightarrow> sanitizeCommandName raw = ''skill'')
   \<and> ((\<forall>c\<in>set (toLowerCase raw). \<not> isCommandChar c \<or> c = CHR ''_'')
        \<longrightarrow> sanitizeCommandName raw = ''skill'')"
proof (intro conjI)
  show "sanitizeNormalized raw = [] \<longrightarrow> sanitizeCommandName raw = ''skill''"
    by (simp add: sanitizeCommandName_cases)
  show "(\<forall>c\<in>set (toLowerCase raw). \<not> isCommandChar c \<or> c = CHR ''_'')
        \<longrightarrow> sanitizeCommandName raw = ''skill''"
    using sanitizeNormalized_degenerate[of raw] by (simp add: sanitizeCommandName_cases)
qed (use sanitizeCommandName_length sanitizeCommandName_chars in blast)+

theorem sanitizeCommandName_shape_witness:
  "sanitizeCommandName ''_ !? -'' = ''skill''
   \<and> 1 \<le> length (sanitizeCommandName ''Deploy Service'')
   \<and> length (sanitizeCommandName ''Deploy Service'') \<le> 32
   \<and> list_all isCommandChar (sanitizeCommandName ''Deploy Service'')"
proof -
  have d: "\<forall>c\<in>set (toLowerCase ''_ !? -''). \<not> isCommandChar c \<or> c = CHR ''_''"
    by code_simp
  from sanitizeCommandName_shape[of "''_ !? -''"] d
  have 1: "sanitizeCommandName ''_ !? -'' = ''skill''" by blast
  from sanitizeCommandName_shape[of "''Deploy Service''"]
  have 2: "1 \<le> length (sanitizeCommandName ''Deploy Service'')
    \<and> length (sanitizeCommandName ''Deploy Service'') \<le> 32
    \<and> list_all isCommandChar (sanitizeCommandName ''Deploy Service'')"
    by (simp add: list_all_iff)
  from 1 2 show ?thesis by blast
qed

section \<open>Properties of the prompt\<close>


lemma escapeXml_Nil [simp]: "escapeXml [] = []"
  by (simp add: escapeXml_def)










section \<open>Properties of command matching\<close>

lemma buildSkillCommandSpecs_single:
  "userInvocable (invocation e) \<Longrightarrow>
   buildSkillCommandSpecs [e] =
     [\<lparr> cname = sanitizeCommandName (name (skill e)), skillName = name (skill e),
         cdescription = commandDescription (skill e) \<rparr>]"
  by (simp add: buildSkillCommandSpecs_def resolveUniqueCommandName_def Let_def)

text \<open>
  C6, as the code has it. For a command list built from one skill named \<open>Deploy Service\<close>
  the command is \<open>deploy_service\<close>. The target of the keyword grammar is one token without
  white space: the input \<open>/skill Deploy-Service args here\<close> resolves to that command with
  the arguments \<open>args here\<close>, by the comparison of normalized names (the two exact
  comparisons fail), and the input \<open>/skill Deploy args here\<close> resolves to nothing.
\<close>

theorem resolve_deploy_service_normalized:
  assumes "name (skill e) = ''Deploy Service''" and "userInvocable (invocation e)"
  shows "buildSkillCommandSpecs [e] =
           [\<lparr> cname = ''deploy_service'', skillName = ''Deploy Service'',
               cdescription = commandDescription (skill e) \<rparr>]
         \<and> resolveCommandInvocation ''/skill Deploy-Service args here'' (buildSkillCommandSpecs [e]) =
             Some \<lparr> command = \<lparr> cname = ''deploy_service'', skillName = ''Deploy Service'',
                                 cdescription = commandDescription (skill e) \<rparr>,
                    args = Some ''args here'' \<rparr>
         \<and> toLowerCase ''deploy_service'' \<noteq> toLowerCase (trim ''Deploy-Service'')
         \<and> toLowerCase ''Deploy Service'' \<noteq> toLowerCase (trim ''Deploy-Service'')
         \<and> normalizeForLookup ''deploy_service'' = normalizeForLookup (trim ''Deploy-Service'')
         \<and> resolveCommandInvocation ''/skill Deploy args here'' (buildSkillCommandSpecs [e]) = None"
proof -
  let ?c = "\<lparr> cname = ''deploy_service'', skillName = ''Deploy Service'',
               cdescription = commandDescription (skill e) \<rparr>"
  have s: "sanitizeCommandName ''Deploy Service'' = ''deploy_service''"
    by code_simp
  from assms have b: "buildSkillCommandSpecs [e] = [?c]"
    by (simp add: buildSkillCommandSpecs_single s)
  have r1: "resolveCommandInvocation ''/skill Deploy-Service args here'' [?c] =
      Some \<lparr> command = ?c, args = Some ''args here'' \<rparr>"
    by code_simp
  have r2: "resolveCommandInvocation ''/skill Deploy args here'' [?c] = None"
    by code_simp
  have t1: "toLowerCase ''deploy_service'' \<noteq> toLowerCase (trim ''Deploy-Service'')"
    by code_simp
  have t2: "toLowerCase ''Deploy Service'' \<noteq> toLowerCase (trim ''Deploy-Service'')"
    by code_simp
  have t3: "normalizeForLookup ''deploy_service'' = normalizeForLookup (trim ''Deploy-Service'')"
    by code_simp
  show ?thesis
    by (simp only: b r1 r2 t1 t2 t3 not_False_eq_True simp_thms)
qed

theorem resolve_deploy_service_normalized_witness:
  "resolveCommandInvocation ''/skill Deploy-Service args here''
     (buildSkillCommandSpecs [plainEntry ''Deploy Service'' ''Deploys'' ''/skills/deploy/SKILL.md'' ''managed'']) =
     Some \<lparr> command = \<lparr> cname = ''deploy_service'', skillName = ''Deploy Service'',
                         cdescription = ''Deploys'' \<rparr>,
            args = Some ''args here'' \<rparr>"
proof -
  let ?e = "plainEntry ''Deploy Service'' ''Deploys'' ''/skills/deploy/SKILL.md'' ''managed''"
  have n: "name (skill ?e) = ''Deploy Service''" by (simp add: plainEntry_def)
  have u: "userInvocable (invocation ?e)" by (simp add: plainEntry_def)
  have d: "commandDescription (skill ?e) = ''Deploys''" by code_simp
  from resolve_deploy_service_normalized[OF n u, THEN conjunct2, THEN conjunct1] show ?thesis
    by (simp only: d)
qed

theorem resolve_deploy_counterexample:
  "resolveCommandInvocation ''/skill Deploy args here''
     (buildSkillCommandSpecs [plainEntry ''Deploy Service'' ''Deploys'' ''/skills/deploy/SKILL.md'' ''managed''])
   = None"
  by code_simp

lemma slashTokenRest_prefix: "slashTokenRest s = Some r \<Longrightarrow> prefix ''/'' s"
  by (cases s) (auto simp: slashTokenRest_def split: if_splits)

lemma keywordDispatch_found:
  "keywordDispatch m2 commands = Some m \<Longrightarrow> \<exists>target. findSkillCommand commands target = Some (command m)"
proof -
  assume "keywordDispatch m2 commands = Some m"
  then obtain s1 cmd where "findSkillCommand commands s1 = Some cmd" "command m = cmd"
    by (auto simp: keywordDispatch_def split: option.splits if_splits)
  then show ?thesis by blast
qed

lemma resolve_slash_skill: "resolveCommandInvocation ''/skill'' commands = None"
proof -
  have t: "trim ''/skill'' = ''/skill''" by code_simp
  have s: "slashTokenRest ''/skill'' = Some (''skill'', None)" by code_simp
  have l: "toLowerCase (trim ''skill'') = ''skill''" by code_simp
  show ?thesis
    by (simp add: resolveCommandInvocation_def t s l keywordDispatch_def)
qed

text \<open>
  C9. When the first token after the slash is the keyword \<open>skill\<close> (in any case), the
  result is that of the keyword branch, for every command list: a match, if any, is a
  command found by \<open>findSkillCommand\<close> for a target token, never the outcome of the
  strict comparison. So the input \<open>/skill\<close> alone resolves to nothing, also when a command
  is named \<open>skill\<close>, which the strict comparison would have found; and a skill named
  \<open>skill\<close>, or one whose name holds no letter or digit, gets that command name.
\<close>

theorem keyword_shadows_direct:
  "(slashTokenRest (trim input) = Some (m1, m2) \<and> toLowerCase (trim m1) = ''skill''
      \<longrightarrow> resolveCommandInvocation input commands = keywordDispatch m2 commands
          \<and> (\<forall>m. resolveCommandInvocation input commands = Some m
                \<longrightarrow> (\<exists>target. findSkillCommand commands target = Some (command m))))
   \<and> resolveCommandInvocation ''/skill'' commands = None
   \<and> (toLowerCase (cname c) = ''skill''
        \<longrightarrow> directDispatch ''skill'' None (c # cs) = Some \<lparr> command = c, args = None \<rparr>
            \<and> resolveCommandInvocation ''/skill'' (c # cs) = None)
   \<and> sanitizeCommandName ''skill'' = ''skill''
   \<and> sanitizeCommandName ''!!!'' = ''skill''"
proof (intro conjI impI)
  assume a: "slashTokenRest (trim input) = Some (m1, m2) \<and> toLowerCase (trim m1) = ''skill''"
  then have p: "prefix ''/'' (trim input)"
    using slashTokenRest_prefix by blast
  from a p show r: "resolveCommandInvocation input commands = keywordDispatch m2 commands"
    by (simp add: resolveCommandInvocation_def)
  show "\<forall>m. resolveCommandInvocation input commands = Some m
                \<longrightarrow> (\<exists>target. findSkillCommand commands target = Some (command m))"
    using r keywordDispatch_found by simp
next
  assume "toLowerCase (cname c) = ''skill''"
  then show "directDispatch ''skill'' None (c # cs) = Some \<lparr> command = c, args = None \<rparr>"
    by (simp add: directDispatch_def trimmedArgs_def)
next
  show "sanitizeCommandName ''skill'' = ''skill''" by code_simp
  show "sanitizeCommandName ''!!!'' = ''skill''" by code_simp
qed (rule resolve_slash_skill)+

theorem keyword_shadows_direct_witness:
  "resolveCommandInvocation '' /Skill  skill now ''
     (buildSkillCommandSpecs [plainEntry ''!!!'' ''d'' ''/skills/x/SKILL.md'' ''managed'']) =
     keywordDispatch (Some ''skill now'')
       (buildSkillCommandSpecs [plainEntry ''!!!'' ''d'' ''/skills/x/SKILL.md'' ''managed''])
   \<and> directDispatch ''skill'' None
       (buildSkillCommandSpecs [plainEntry ''!!!'' ''d'' ''/skills/x/SKILL.md'' ''managed'']) =
       Some \<lparr> command = \<lparr> cname = ''skill'', skillName = ''!!!'', cdescription = ''d'' \<rparr>,
              args = None \<rparr>
   \<and> resolveCommandInvocation ''/skill''
       (buildSkillCommandSpecs [plainEntry ''!!!'' ''d'' ''/skills/x/SKILL.md'' ''managed'']) = None"
proof -
  let ?c = "\<lparr> cname = ''skill'', skillName = ''!!!'', cdescription = ''d'' \<rparr>"
  have b: "buildSkillCommandSpecs [plainEntry ''!!!'' ''d'' ''/skills/x/SKILL.md'' ''managed''] = [?c]"
    by code_simp
  have s: "slashTokenRest (trim '' /Skill  skill now '') = Some (''Skill'', Some ''skill now'')"
    by code_simp
  have l: "toLowerCase (trim ''Skill'') = ''skill''" by code_simp
  have n: "toLowerCase (cname ?c) = ''skill''" by code_simp
  note t = keyword_shadows_direct[of "'' /Skill  skill now ''" "''Skill''" "Some ''skill now''" "[?c]" ?c "[]"]
  from t[THEN conjunct1] s l
  have 1: "resolveCommandInvocation '' /Skill  skill now '' [?c] = keywordDispatch (Some ''skill now'') [?c]"
    by blast
  from t[THEN conjunct2, THEN conjunct2, THEN conjunct1] n
  have 2: "directDispatch ''skill'' None [?c] = Some \<lparr> command = ?c, args = None \<rparr>
           \<and> resolveCommandInvocation ''/skill'' [?c] = None"
    by blast
  from 1 2 show ?thesis
    by (simp only: b)
qed

section \<open>Properties of scanning\<close>

lemma loadSkillFromFile_description:
  "loadSkillFromFile fs file base src = Some s \<Longrightarrow> description s \<noteq> []"
  by (auto simp: loadSkillFromFile_def Let_def split: option.splits if_splits)

lemma optList_description:
  "s \<in> set (optList (loadSkillFromFile fs file base src)) \<Longrightarrow> description s \<noteq> []"
  by (cases "loadSkillFromFile fs file base src")
     (auto simp: optList_def dest: loadSkillFromFile_description)

lemma scanSubdirs_description:
  "s \<in> set (scanSubdirs fs dir node src) \<Longrightarrow> description s \<noteq> []"
proof (induction fs dir node src rule: scanSubdirs.induct)
  case (1 fs dir c src)
  then show ?case by simp
next
  case (2 fs dir listable entries src)
  from "2.prems" obtain ename child where
    e: "(ename, child) \<in> set entries" "listable" "\<not> skipEntry ename" "isDirectory child"
    and s: "s \<in> set (optList (loadSkillFromFile fs (pathJoin (pathJoin dir ename) ''SKILL.md'')
                        (pathJoin dir ename) src))
            \<or> s \<in> set (scanSubdirs fs (pathJoin dir ename) child src)"
    by (auto simp: Let_def split: if_splits)
  from s show ?case
  proof
    assume "s \<in> set (optList (loadSkillFromFile fs (pathJoin (pathJoin dir ename) ''SKILL.md'')
                        (pathJoin dir ename) src))"
    then show ?thesis by (rule optList_description)
  next
    assume "s \<in> set (scanSubdirs fs (pathJoin dir ename) child src)"
    with e show ?thesis
      using "2.IH"[of "(ename, child)" ename child "pathJoin dir ename"] by simp
  qed
qed

lemma scanEntry_description:
  "s \<in> set (scanEntry fs dir src e) \<Longrightarrow> description s \<noteq> []"
  by (cases e)
     (auto simp: scanEntry_def Let_def split: if_splits
           dest: optList_description scanSubdirs_description)

lemma loadSkillsFromDir_description:
  "s \<in> set (loadSkillsFromDir fs dir src) \<Longrightarrow> description s \<noteq> []"
  by (auto simp: loadSkillsFromDir_def split: option.splits dest: scanEntry_description)

lemma fold_frontmatter_absent:
  "\<forall>l\<in>set ls. \<forall>v. parseLine l \<noteq> Some (k, v) \<Longrightarrow> m k = None \<Longrightarrow>
   fold (\<lambda>line result.
           case parseLine line of
             None \<Rightarrow> result
           | Some (k, v) \<Rightarrow> result(k \<mapsto> stripQuotes v)) ls m k = None"
proof (induction ls arbitrary: m)
  case Nil
  then show ?case by simp
next
  case (Cons l ls)
  show ?case
  proof (cases "parseLine l")
    case None
    with Cons show ?thesis by simp
  next
    case (Some kv)
    obtain k' v' where kv: "kv = (k', v')" by (cases kv)
    with Some Cons.prems have "k' \<noteq> k" by auto
    with Cons.prems have "(m(k' \<mapsto> stripQuotes v')) k = None" by simp
    with Cons Some kv show ?thesis by simp
  qed
qed

text \<open>
  C8. Scanning returns a list in every case. When \<open>readdir\<close> fails on the root the result
  is empty, and \<open>readdir\<close> fails when the path does not exist, names a file, or names a
  directory that cannot be listed. A file that cannot be read gives no skill; a file whose
  header has no \<open>description\<close>, or one that is empty after trimming, gives no skill; a file
  without a header block, or whose header lines hold no \<open>description\<close> key, has no
  description. So every skill the scanner returns has a non-empty description.
\<close>

theorem scanning_never_fails:
  "(readdir fs dir = None \<longrightarrow> loadSkillsFromDir fs dir src = [])
   \<and> (lookupPath fs (splitPath dir) = None \<longrightarrow> readdir fs dir = None)
   \<and> (lookupPath fs (splitPath dir) = Some (FFile c) \<longrightarrow> readdir fs dir = None)
   \<and> (lookupPath fs (splitPath dir) = Some (FDir False entries) \<longrightarrow> readdir fs dir = None)
   \<and> (readFile fs file = None \<longrightarrow> loadSkillFromFile fs file base src = None)
   \<and> (readFile fs file = Some content \<and> optTrim (extractFrontmatter content ''description'') = []
        \<longrightarrow> loadSkillFromFile fs file base src = None)
   \<and> (headerBlock content = None \<longrightarrow> extractFrontmatter content ''description'' = None)
   \<and> ((\<forall>l\<in>set ls. \<forall>v. parseLine l \<noteq> Some (''description'', v))
        \<longrightarrow> frontmatterLines ls ''description'' = None)
   \<and> (\<forall>s\<in>set (loadSkillsFromDir fs dir src). description s \<noteq> [])"
proof (intro conjI impI)
  assume "readdir fs dir = None"
  then show "loadSkillsFromDir fs dir src = []"
    by (simp add: loadSkillsFromDir_def)
next
  assume "lookupPath fs (splitPath dir) = None"
  then show "readdir fs dir = None" by (simp add: readdir_def)
next
  assume "lookupPath fs (splitPath dir) = Some (FFile c)"
  then show "readdir fs dir = None" by (simp add: readdir_def)
next
  assume "lookupPath fs (splitPath dir) = Some (FDir False entries)"
  then show "readdir fs dir = None" by (simp add: readdir_def)
next
  assume "readFile fs file = None"
  then show "loadSkillFromFile fs file base src = None"
    by (simp add: loadSkillFromFile_def)
next
  assume "readFile fs file = Some content \<and> optTrim (extractFrontmatter content ''description'') = []"
  then show "loadSkillFromFile fs file base src = None"
    by (simp add: loadSkillFromFile_def Let_def orElse_def)
next
  assume "headerBlock content = None"
  then show "extractFrontmatter content ''description'' = None"
    by (simp add: extractFrontmatter_def)
next
  assume "\<forall>l\<in>set ls. \<forall>v. parseLine l \<noteq> Some (''description'', v)"
  then show "frontmatterLines ls ''description'' = None"
    unfolding frontmatterLines_def by (rule fold_frontmatter_absent) simp
next
  show "\<forall>s\<in>set (loadSkillsFromDir fs dir src). description s \<noteq> []"
    using loadSkillsFromDir_description by blast
qed

theorem scanning_never_fails_witness:
  "loadSkillsFromDir (FDir True [(''m'', FDir False [])]) ''/nowhere'' ''managed'' = []
   \<and> loadSkillsFromDir (FDir True [(''m'', FDir False [])]) ''/m'' ''managed'' = []
   \<and> loadSkillFromFile
        (FDir True [(''a.md'', FFile (Some (skillFile ''a'' [CHR 0x22, CHR 0x22])))])
        ''/a.md'' ''/'' ''managed'' = None
   \<and> loadSkillsFromDir
        (FDir True [(''a.md'', FFile (Some (skillFile ''a'' [CHR 0x22, CHR 0x22]))),
                    (''b.md'', FFile None),
                    (''c.md'', FFile (Some (''No header.''))),
                    (''d.md'', FFile (Some (skillFile ''d'' ''Does d.'')))])
        ''/'' ''managed'' =
       [\<lparr>name = ''d'', description = ''Does d.'', filePath = ''/d.md'', baseDir = ''/'',
          source = ''managed'', disableModelInvocation = False\<rparr>]"
proof -
  let ?fs1 = "FDir True [(''m'', FDir False [])]"
  let ?fs2 = "FDir True [(''a.md'', FFile (Some (skillFile ''a'' [CHR 0x22, CHR 0x22])))]"
  have l1: "lookupPath ?fs1 (splitPath ''/nowhere'') = None" by code_simp
  have l2: "lookupPath ?fs1 (splitPath ''/m'') = Some (FDir False [])" by code_simp
  have r: "readFile ?fs2 ''/a.md'' = Some (skillFile ''a'' [CHR 0x22, CHR 0x22])" by code_simp
  have d: "optTrim (extractFrontmatter (skillFile ''a'' [CHR 0x22, CHR 0x22]) ''description'') = []"
    by code_simp
  note t1 = scanning_never_fails[of ?fs1 "''/nowhere''" "''managed''"]
  note t2 = scanning_never_fails[of ?fs1 "''/m''" "''managed''" _ "[]"]
  note t3 = scanning_never_fails[of ?fs2 _ _ _ _ "''/a.md''" "''/''"
      "skillFile ''a'' [CHR 0x22, CHR 0x22]"]
  from t1[THEN conjunct1] t1[THEN conjunct2, THEN conjunct1] l1
  have 1: "loadSkillsFromDir ?fs1 ''/nowhere'' ''managed'' = []" by simp
  from t2[THEN conjunct1] t2[THEN conjunct2, THEN conjunct2, THEN conjunct2, THEN conjunct1] l2
  have 2: "loadSkillsFromDir ?fs1 ''/m'' ''managed'' = []" by simp
  from t3[THEN conjunct2, THEN conjunct2, THEN conjunct2, THEN conjunct2, THEN conjunct2,
          THEN conjunct1] r d
  have 3: "loadSkillFromFile ?fs2 ''/a.md'' ''/'' ''managed'' = None" by simp
  have 4: "loadSkillsFromDir
        (FDir True [(''a.md'', FFile (Some (skillFile ''a'' [CHR 0x22, CHR 0x22]))),
                    (''b.md'', FFile None),
                    (''c.md'', FFile (Some (''No header.''))),
                    (''d.md'', FFile (Some (skillFile ''d'' ''Does d.'')))])
        ''/'' ''managed'' =
       [\<lparr>name = ''d'', description = ''Does d.'', filePath = ''/d.md'', baseDir = ''/'',
          source = ''managed'', disableModelInvocation = False\<rparr>]"
    by code_simp
  show ?thesis
    by (intro conjI) (rule 1, rule 2, rule 3, rule 4)
qed

section \<open>Properties of merging\<close>

lemma map_of_mapSet: "map_of (mapSet k v m) = (map_of m)(k \<mapsto> v)"
  by (induction m) (auto simp: fun_eq_iff)

lemma keys_mapSet: "set (map fst (mapSet k v m)) = insert k (set (map fst m))"
  by (induction m) auto

lemma distinct_mapSet: "distinct (map fst m) \<Longrightarrow> distinct (map fst (mapSet k v m))"
proof (induction m)
  case Nil
  show ?case by simp
next
  case (Cons e m)
  from Cons have "distinct (map fst (mapSet k v m))" by simp
  moreover have "fst e \<noteq> k \<Longrightarrow> fst e \<notin> set (map fst (mapSet k v m))"
    using Cons.prems by (simp only: keys_mapSet) auto
  ultimately show ?case using Cons.prems by auto
qed

lemma find_append:
  "find P (xs @ ys) = (case find P xs of None \<Rightarrow> find P ys | Some x \<Rightarrow> Some x)"
  by (induction xs) simp_all

lemma map_of_fold_mapSet:
  "map_of (fold (\<lambda>s merged. mapSet (name s) s merged) xs m) n =
     (case find (\<lambda>s. name s = n) (rev xs) of Some s \<Rightarrow> Some s | None \<Rightarrow> map_of m n)"
proof (induction xs arbitrary: m)
  case Nil
  show ?case by simp
next
  case (Cons x xs)
  show ?case
    by (simp add: Cons.IH map_of_mapSet find_append split: option.splits)
qed

lemma distinct_fold_mapSet:
  "distinct (map fst m) \<Longrightarrow> distinct (map fst (fold (\<lambda>s merged. mapSet (name s) s merged) xs m))"
  by (induction xs arbitrary: m) (simp_all add: distinct_mapSet)

lemma loadSkillEntries_skills:
  "map skill (loadSkillEntries fs w m) =
     map snd (mergeSkills (loadSkillsFromDir fs m ''managed'')
                          (loadSkillsFromDir fs (pathJoin w ''skills'') ''workspace''))"
  by (simp add: loadSkillEntries_def Let_def enrich_def case_prod_beta comp_def)

lemma build_two_deploy:
  assumes "name (skill e1) = ''Deploy Service''" "name (skill e2) = ''deploy_service''"
    and "userInvocable (invocation e1)" "userInvocable (invocation e2)"
  shows "map cname (buildSkillCommandSpecs [e1, e2]) = [''deploy_service'', ''deploy_service_2'']"
proof -
  have s1: "sanitizeCommandName ''Deploy Service'' = ''deploy_service''" by code_simp
  have s2: "sanitizeCommandName ''deploy_service'' = ''deploy_service''" by code_simp
  have r1: "resolveUniqueCommandName ''deploy_service'' {} = ''deploy_service''"
    by (simp add: resolveUniqueCommandName_def)
  have r2: "resolveUniqueCommandName ''deploy_service'' {toLowerCase ''deploy_service''}
            = ''deploy_service_2''"
    by code_simp
  from assms show ?thesis
    by (simp add: buildSkillCommandSpecs_def Let_def s1 s2 r1 r2)
qed

text \<open>
  C5. The merge keeps one record per name, compared as strings: the record of a name is the
  last one the workspace scan gave for it and, when the workspace has none, the last one of
  the managed scan; the entries handed to the synthesis are those records. Two scans that
  each hold one skill of the same name leave the workspace record alone; two skills with
  different names both stay, the managed one first. Entries named \<open>Deploy Service\<close> and
  \<open>deploy_service\<close>, in this order, get the commands \<open>deploy_service\<close> and
  \<open>deploy_service_2\<close>.
\<close>

theorem merge_last_write_wins:
  "map_of (mergeSkills ms ws) n =
     (case find (\<lambda>s. name s = n) (rev ws) of
        Some s \<Rightarrow> Some s
      | None \<Rightarrow> find (\<lambda>s. name s = n) (rev ms))
   \<and> distinct (map fst (mergeSkills ms ws))
   \<and> map skill (loadSkillEntries fs w m) =
       map snd (mergeSkills (loadSkillsFromDir fs m ''managed'')
                            (loadSkillsFromDir fs (pathJoin w ''skills'') ''workspace''))
   \<and> (name a = name b \<longrightarrow> mergeSkills [a] [b] = [(name b, b)])
   \<and> (name a \<noteq> name b \<longrightarrow> mergeSkills [a] [b] = [(name a, a), (name b, b)])
   \<and> (name (skill e1) = ''Deploy Service'' \<and> name (skill e2) = ''deploy_service''
        \<and> userInvocable (invocation e1) \<and> userInvocable (invocation e2)
        \<longrightarrow> map cname (buildSkillCommandSpecs [e1, e2]) = [''deploy_service'', ''deploy_service_2''])"
proof (intro conjI impI)
  show "map_of (mergeSkills ms ws) n =
     (case find (\<lambda>s. name s = n) (rev ws) of
        Some s \<Rightarrow> Some s
      | None \<Rightarrow> find (\<lambda>s. name s = n) (rev ms))"
    by (simp add: mergeSkills_def map_of_fold_mapSet split: option.splits)
next
  show "distinct (map fst (mergeSkills ms ws))"
    by (simp add: mergeSkills_def distinct_fold_mapSet)
next
  show "map skill (loadSkillEntries fs w m) =
       map snd (mergeSkills (loadSkillsFromDir fs m ''managed'')
                            (loadSkillsFromDir fs (pathJoin w ''skills'') ''workspace''))"
    by (rule loadSkillEntries_skills)
next
  assume "name a = name b"
  then show "mergeSkills [a] [b] = [(name b, b)]"
    by (simp add: mergeSkills_def)
next
  assume "name a \<noteq> name b"
  then show "mergeSkills [a] [b] = [(name a, a), (name b, b)]"
    by (simp add: mergeSkills_def)
next
  assume "name (skill e1) = ''Deploy Service'' \<and> name (skill e2) = ''deploy_service''
        \<and> userInvocable (invocation e1) \<and> userInvocable (invocation e2)"
  then show "map cname (buildSkillCommandSpecs [e1, e2]) = [''deploy_service'', ''deploy_service_2'']"
    using build_two_deploy by blast
qed

theorem merge_last_write_wins_witness:
  "map (\<lambda>e. (name (skill e), description (skill e), source (skill e)))
     (loadSkillEntries
        (FDir True
          [(''m'', FDir True
              [(''foo'', FDir True [(''SKILL.md'', FFile (Some (skillFile ''foo'' ''From A'')))]),
               (''dep'', FDir True [(''SKILL.md'', FFile (Some (skillFile ''Deploy Service'' ''Managed'')))])]),
           (''w'', FDir True [(''skills'', FDir True
              [(''foo'', FDir True [(''SKILL.md'', FFile (Some (skillFile ''foo'' ''From B'')))]),
               (''dep'', FDir True [(''SKILL.md'', FFile (Some (skillFile ''deploy_service'' ''Workspace'')))])])])])
        ''/w'' ''/m'')
   = [(''foo'', ''From B'', ''workspace''),
      (''Deploy Service'', ''Managed'', ''managed''),
      (''deploy_service'', ''Workspace'', ''workspace'')]
   \<and> map cname (buildSkillCommandSpecs
        [plainEntry ''Deploy Service'' ''Managed'' ''/m/dep/SKILL.md'' ''managed'',
         plainEntry ''deploy_service'' ''Workspace'' ''/w/skills/dep/SKILL.md'' ''workspace''])
     = [''deploy_service'', ''deploy_service_2'']
   \<and> map cname (buildSkillCommandSpecs
     (loadSkillEntries
        (FDir True
          [(''m'', FDir True
              [(''foo'', FDir True [(''SKILL.md'', FFile (Some (skillFile ''foo'' ''From A'')))]),
               (''dep'', FDir True [(''SKILL.md'', FFile (Some (skillFile ''Deploy Service'' ''Managed'')))])]),
           (''w'', FDir True [(''skills'', FDir True
              [(''foo'', FDir True [(''SKILL.md'', FFile (Some (skillFile ''foo'' ''From B'')))]),
               (''dep'', FDir True [(''SKILL.md'', FFile (Some (skillFile ''deploy_service'' ''Workspace'')))])])])])
        ''/w'' ''/m''))
     = [''foo'', ''deploy_service'', ''deploy_service_2'']"
proof -
  let ?fs = "FDir True
          [(''m'', FDir True
              [(''foo'', FDir True [(''SKILL.md'', FFile (Some (skillFile ''foo'' ''From A'')))]),
               (''dep'', FDir True [(''SKILL.md'', FFile (Some (skillFile ''Deploy Service'' ''Managed'')))])]),
           (''w'', FDir True [(''skills'', FDir True
              [(''foo'', FDir True [(''SKILL.md'', FFile (Some (skillFile ''foo'' ''From B'')))]),
               (''dep'', FDir True [(''SKILL.md'', FFile (Some (skillFile ''deploy_service'' ''Workspace'')))])])])]"
  let ?e1 = "plainEntry ''Deploy Service'' ''Managed'' ''/m/dep/SKILL.md'' ''managed''"
  let ?e2 = "plainEntry ''deploy_service'' ''Workspace'' ''/w/skills/dep/SKILL.md'' ''workspace''"
  have m: "map snd (mergeSkills (loadSkillsFromDir ?fs ''/m'' ''managed'')
                      (loadSkillsFromDir ?fs (pathJoin ''/w'' ''skills'') ''workspace'')) =
      [\<lparr>name = ''foo'', description = ''From B'', filePath = ''/w/skills/foo/SKILL.md'',
         baseDir = ''/w/skills/foo'', source = ''workspace'', disableModelInvocation = False\<rparr>,
       \<lparr>name = ''Deploy Service'', description = ''Managed'', filePath = ''/m/dep/SKILL.md'',
         baseDir = ''/m/dep'', source = ''managed'', disableModelInvocation = False\<rparr>,
       \<lparr>name = ''deploy_service'', description = ''Workspace'', filePath = ''/w/skills/dep/SKILL.md'',
         baseDir = ''/w/skills/dep'', source = ''workspace'', disableModelInvocation = False\<rparr>]"
    by code_simp
  note t = merge_last_write_wins[of _ _ _ ?fs "''/w''" "''/m''" _ _ ?e1 ?e2]
  from t[THEN conjunct2, THEN conjunct2, THEN conjunct1]
  have "map skill (loadSkillEntries ?fs ''/w'' ''/m'') =
      [\<lparr>name = ''foo'', description = ''From B'', filePath = ''/w/skills/foo/SKILL.md'',
         baseDir = ''/w/skills/foo'', source = ''workspace'', disableModelInvocation = False\<rparr>,
       \<lparr>name = ''Deploy Service'', description = ''Managed'', filePath = ''/m/dep/SKILL.md'',
         baseDir = ''/m/dep'', source = ''managed'', disableModelInvocation = False\<rparr>,
       \<lparr>name = ''deploy_service'', description = ''Workspace'', filePath = ''/w/skills/dep/SKILL.md'',
         baseDir = ''/w/skills/dep'', source = ''workspace'', disableModelInvocation = False\<rparr>]"
    by (simp only: m)
  then have "map ((\<lambda>s. (name s, description s, source s)) \<circ> skill) (loadSkillEntries ?fs ''/w'' ''/m'')
      = [(''foo'', ''From B'', ''workspace''),
         (''Deploy Service'', ''Managed'', ''managed''),
         (''deploy_service'', ''Workspace'', ''workspace'')]"
    by (simp only: map_map[symmetric]) simp
  then have 1: "map (\<lambda>e. (name (skill e), description (skill e), source (skill e)))
       (loadSkillEntries ?fs ''/w'' ''/m'')
      = [(''foo'', ''From B'', ''workspace''),
         (''Deploy Service'', ''Managed'', ''managed''),
         (''deploy_service'', ''Workspace'', ''workspace'')]"
    by (simp only: comp_def)
  have n: "name (skill ?e1) = ''Deploy Service'' \<and> name (skill ?e2) = ''deploy_service''
        \<and> userInvocable (invocation ?e1) \<and> userInvocable (invocation ?e2)"
    by (simp add: plainEntry_def)
  from t[THEN conjunct2, THEN conjunct2, THEN conjunct2, THEN conjunct2, THEN conjunct2] n
  have 2: "map cname (buildSkillCommandSpecs [?e1, ?e2]) = [''deploy_service'', ''deploy_service_2'']"
    by (rule mp)
  have 3: "map cname (buildSkillCommandSpecs (loadSkillEntries ?fs ''/w'' ''/m''))
      = [''foo'', ''deploy_service'', ''deploy_service_2'']"
    by code_simp
  show ?thesis
    by (intro conjI) (rule 1, rule 2, rule 3)
qed

section \<open>Properties of collision resolution\<close>

declare showNat.simps [simp del]
declare resolveLoop.simps [simp del]

lemma showNat_length: "1 \<le> length (showNat n)"
  by (subst showNat.simps) simp

lemma digit_inj: "a < 10 \<Longrightarrow> b < 10 \<Longrightarrow> char_of (48 + a) = (char_of (48 + b) :: char) \<Longrightarrow> a = (b::nat)"
  by simp

lemma showNat_inj: "showNat m = showNat n \<Longrightarrow> m = n"
proof (induction m arbitrary: n rule: showNat.induct)
  case (1 m)
  show ?case
  proof (cases "m < 10")
    case m: True
    show ?thesis
    proof (cases "n < 10")
      case True
      with m "1.prems" show ?thesis
        by (simp add: showNat.simps[of m] showNat.simps[of n])
    next
      case False
      with m "1.prems" have "length (showNat (n div 10) @ [char_of (48 + n mod 10)]) = 1"
        by (simp add: showNat.simps[of m] showNat.simps[of n])
      with showNat_length[of "n div 10"] show ?thesis by simp
    qed
  next
    case m: False
    show ?thesis
    proof (cases "n < 10")
      case True
      with m "1.prems" have "length (showNat (m div 10) @ [char_of (48 + m mod 10)]) = 1"
        by (simp add: showNat.simps[of m] showNat.simps[of n])
      with showNat_length[of "m div 10"] show ?thesis by simp
    next
      case False
      with m "1.prems" have
        a: "showNat (m div 10) = showNat (n div 10)" and
        b: "char_of (48 + m mod 10) = (char_of (48 + n mod 10) :: char)"
        by (simp_all add: showNat.simps[of m] showNat.simps[of n])
      from "1.IH"[OF m a] have d: "m div 10 = n div 10" .
      from b have "m mod 10 = n mod 10"
        by (intro digit_inj) simp_all
      with d show ?thesis
        by (metis div_mult_mod_eq)
    qed
  qed
qed

lemma digit_lower: "d < 10 \<Longrightarrow> lowerChar (char_of (48 + d)) = char_of (48 + (d::nat))"
  by (simp add: lowerChar_def isUpper_def code_def)

lemma digit_not_x: "d < 10 \<Longrightarrow> char_of (48 + (d::nat)) \<noteq> CHR ''x''"
proof
  assume d: "d < 10" and "char_of (48 + d) = CHR ''x''"
  then have "of_char (char_of (48 + d) :: char) = (of_char (CHR ''x'') :: nat)" by simp
  with d show False by simp
qed

lemma showNat_lower: "toLowerCase (showNat n) = showNat n"
proof (induction n rule: showNat.induct)
  case (1 n)
  show ?case
  proof (cases "n < 10")
    case True
    then show ?thesis
      by (simp add: showNat.simps[of n] toLowerCase_def digit_lower)
  next
    case False
    with 1 have "toLowerCase (showNat (n div 10)) = showNat (n div 10)" by simp
    with False show ?thesis
      by (simp add: showNat.simps[of n] digit_lower) (simp add: toLowerCase_def digit_lower)
  qed
qed

lemma showNat_not_x: "showNat n \<noteq> ''x''"
proof (cases "n < 10")
  case True
  then show ?thesis
    by (simp add: showNat.simps[of n] digit_not_x)
next
  case False
  then have "length (showNat n) = length (showNat (n div 10)) + 1"
    by (simp add: showNat.simps[of n])
  with showNat_length[of "n div 10"] show ?thesis by auto
qed

lemma candidateName_a: "candidateName ''a'' i = ''a_'' @ showNat i"
  by (simp add: candidateName_def Let_def COMMAND_MAX_LENGTH_def max_def)

lemma lower_a: "toLowerCase ''a'' = ''a''" "toLowerCase ''a_x'' = ''a_x''" "toLowerCase ''a_'' = ''a_''"
  by code_simp+

lemma candidateName_a_lower: "toLowerCase (candidateName ''a'' i) = candidateName ''a'' i"
  by (simp only: candidateName_a toLowerCase_append lower_a showNat_lower)

lemma candidateName_a_inj: "candidateName ''a'' i = candidateName ''a'' j \<Longrightarrow> i = j"
  by (simp add: candidateName_a showNat_inj)

lemma candidateName_a_other:
  "candidateName ''a'' i \<noteq> ''a''" "candidateName ''a'' i \<noteq> ''a_x''"
  by (simp_all add: candidateName_a showNat_not_x)

lemma resolveLoop_found:
  "i \<le> j \<Longrightarrow> j < 1000
   \<Longrightarrow> \<forall>t. i \<le> t \<and> t < j \<longrightarrow> toLowerCase (candidateName b t) \<in> used
   \<Longrightarrow> toLowerCase (candidateName b j) \<notin> used
   \<Longrightarrow> resolveLoop b used i = candidateName b j"
proof (induction "j - i" arbitrary: i)
  case 0
  then have "i = j" by simp
  with 0 show ?case
    by (simp add: resolveLoop.simps[of b used j])
next
  case (Suc d)
  then have lt: "i < j" by simp
  with Suc.prems have "toLowerCase (candidateName b i) \<in> used" by simp
  with lt Suc.prems have "resolveLoop b used i = resolveLoop b used (i + 1)"
    by (simp add: resolveLoop.simps[of b used i])
  moreover have "resolveLoop b used (i + 1) = candidateName b j"
    using Suc lt by (intro Suc.hyps) auto
  ultimately show ?case by simp
qed

lemma resolveLoop_fallback:
  "i \<le> 1000
   \<Longrightarrow> \<forall>t. i \<le> t \<and> t < 1000 \<longrightarrow> toLowerCase (candidateName b t) \<in> used
   \<Longrightarrow> resolveLoop b used i = take 30 b @ ''_x''"
proof (induction "1000 - i" arbitrary: i)
  case 0
  then have "i = 1000" by simp
  then show ?case
    by (simp add: resolveLoop.simps[of b used 1000] COMMAND_MAX_LENGTH_def)
next
  case (Suc d)
  then have lt: "i < 1000" by simp
  with Suc.prems have "toLowerCase (candidateName b i) \<in> used" by simp
  with lt have "resolveLoop b used i = resolveLoop b used (i + 1)"
    by (simp add: resolveLoop.simps[of b used i])
  moreover have "resolveLoop b used (i + 1) = take 30 b @ ''_x''"
    using Suc lt by (intro Suc.hyps) auto
  ultimately show ?case by simp
qed

text \<open>One step of the loop on base \<open>a\<close>, from the state reached after \<open>k\<close> such entries.\<close>

lemma resolve_colliding:
  assumes "1 \<le> k"
  shows "resolveUniqueCommandName ''a'' (usedAfter k) = nameOfNth (Suc k)"
proof -
  have a: "toLowerCase ''a'' \<in> usedAfter k"
    by (simp add: usedAfter_def lower_a)
  show ?thesis
  proof (cases "k < 999")
    case True
    have in_used: "\<forall>t. 2 \<le> t \<and> t < Suc k \<longrightarrow> toLowerCase (candidateName ''a'' t) \<in> usedAfter k"
      using True by (auto simp: usedAfter_def candidateName_a_lower)
    have "candidateName ''a'' (Suc k) \<notin> usedAfter k"
    proof
      assume "candidateName ''a'' (Suc k) \<in> usedAfter k"
      with True have "candidateName ''a'' (Suc k) \<in> (\<lambda>i. candidateName ''a'' i) ` {2..k}"
        by (simp add: usedAfter_def candidateName_a_other)
      then obtain i where "i \<le> k" "candidateName ''a'' (Suc k) = candidateName ''a'' i"
        by auto
      then show False
        using candidateName_a_inj[of "Suc k" i] by simp
    qed
    then have out: "toLowerCase (candidateName ''a'' (Suc k)) \<notin> usedAfter k"
      by (simp add: candidateName_a_lower)
    have "resolveLoop ''a'' (usedAfter k) 2 = candidateName ''a'' (Suc k)"
      using assms True in_used out by (intro resolveLoop_found) auto
    with a True show ?thesis
      by (simp add: resolveUniqueCommandName_def nameOfNth_def)
  next
    case False
    then have "\<forall>t. 2 \<le> t \<and> t < 1000 \<longrightarrow> toLowerCase (candidateName ''a'' t) \<in> usedAfter k"
      by (auto simp: usedAfter_def candidateName_a_lower)
    then have "resolveLoop ''a'' (usedAfter k) 2 = take 30 ''a'' @ ''_x''"
      by (intro resolveLoop_fallback) auto
    with a False show ?thesis
      by (simp add: resolveUniqueCommandName_def nameOfNth_def)
  qed
qed

lemma usedAfter_Suc:
  assumes "1 \<le> k"
  shows "insert (toLowerCase (nameOfNth (Suc k))) (usedAfter k) = usedAfter (Suc k)"
proof (cases "k < 999")
  case True
  then have m: "min (Suc k) 999 = Suc k" "min k 999 = k" by simp_all
  from assms have "{2..Suc k} = insert (Suc k) {2..k}"
    by (intro atLeastAtMostSuc_conv) simp
  with True show ?thesis
    by (auto simp: usedAfter_def nameOfNth_def candidateName_a_lower m)
next
  case False
  then have m: "min (Suc k) 999 = 999" "min k 999 = 999" by simp_all
  from False show ?thesis
    by (auto simp: usedAfter_def nameOfNth_def lower_a m)
qed

lemma buildLoop_colliding:
  "\<forall>e\<in>set es. sanitizeCommandName (name (skill e)) = ''a'' \<Longrightarrow> 1 \<le> k
   \<Longrightarrow> map cname (buildLoop es (usedAfter k) specs) =
       map cname specs @ map nameOfNth [Suc k..<Suc k + length es]"
proof (induction es arbitrary: k specs)
  case Nil
  show ?case by simp
next
  case (Cons e es)
  from Cons.prems have base: "sanitizeCommandName (name (skill e)) = ''a''" by simp
  let ?spec = "\<lparr> cname = nameOfNth (Suc k), skillName = name (skill e),
                 cdescription = commandDescription (skill e) \<rparr>"
  have "buildLoop (e # es) (usedAfter k) specs =
          buildLoop es (usedAfter (Suc k)) (specs @ [?spec])"
    using Cons.prems(2)
    by (simp add: base Let_def resolve_colliding usedAfter_Suc)
  moreover have "map cname (buildLoop es (usedAfter (Suc k)) (specs @ [?spec])) =
      map cname (specs @ [?spec]) @ map nameOfNth [Suc (Suc k)..<Suc (Suc k) + length es]"
    using Cons.prems by (intro Cons.IH) auto
  moreover have "[Suc k..<Suc k + length (e # es)] = Suc k # [Suc (Suc k)..<Suc (Suc k) + length es]"
  proof -
    have "[Suc k..<Suc k + Suc (length es)] = Suc k # [Suc (Suc k)..<Suc k + Suc (length es)]"
      by (rule upt_conv_Cons) simp
    then show ?thesis by simp
  qed
  ultimately show ?case by simp
qed

lemma sanitize_colliding: "sanitizeCommandName (CHR ''a'' # replicate k (CHR ''!'')) = ''a''"
proof -
  have l: "toLowerCase (CHR ''a'' # replicate k (CHR ''!'')) = CHR ''a'' # replicate k (CHR ''!'')"
    by (simp add: toLowerCase_def lowerChar_def isUpper_def code_def)
  have na: "isCommandChar (CHR ''a'')" and nb: "\<not> isCommandChar (CHR ''!'')"
    by (simp_all add: isCommandChar_def isDigit_def code_def)
  have "replaceRuns (\<lambda>c. \<not> isCommandChar c) ''_'' (replicate k (CHR ''!'')) =
          (if k = 0 then [] else ''_'')"
    using nb by (simp add: replaceRuns_all)
  with na have r: "replaceRuns (\<lambda>c. \<not> isCommandChar c) ''_'' (CHR ''a'' # replicate k (CHR ''!'')) =
          (if k = 0 then ''a'' else ''a_'')"
    by simp
  have s0: "stripEnds (\<lambda>c. c = CHR ''_'') (replaceRuns (\<lambda>c. c = CHR ''_'') ''_'' ''a'') = ''a''"
    by code_simp
  have s1: "stripEnds (\<lambda>c. c = CHR ''_'') (replaceRuns (\<lambda>c. c = CHR ''_'') ''_'' ''a_'') = ''a''"
    by code_simp
  have "sanitizeNormalized (CHR ''a'' # replicate k (CHR ''!'')) = ''a''"
    unfolding sanitizeNormalized_def l r using s0 s1 by simp
  then show ?thesis
    by (simp add: sanitizeCommandName_cases)
qed

lemma collidingEntries_props:
  "\<forall>e\<in>set (collidingEntries n). sanitizeCommandName (name (skill e)) = ''a''"
  "filter (\<lambda>e. userInvocable (invocation e)) (collidingEntries n) = collidingEntries n"
  "length (collidingEntries n) = n"
  by (auto simp: collidingEntries_def plainEntry_def sanitize_colliding)

lemma collidingEntries_distinct: "distinct (map (\<lambda>e. name (skill e)) (collidingEntries n))"
proof -
  have "inj_on (\<lambda>k. ''a'' @ replicate k (CHR ''!'')) {0..<n}"
    by (rule inj_onI) simp
  then have "distinct (map (\<lambda>k. ''a'' @ replicate k (CHR ''!'')) [0..<n])"
    by (simp add: distinct_map)
  then show ?thesis
    by (simp add: collidingEntries_def plainEntry_def comp_def)
qed

lemma buildSkillCommandSpecs_colliding:
  "map cname (buildSkillCommandSpecs (collidingEntries (Suc n))) = ''a'' # map nameOfNth [2..<2 + n]"
proof -
  have c: "collidingEntries (Suc n) = hd (collidingEntries (Suc n)) # tl (collidingEntries (Suc n))"
    by (simp add: collidingEntries_def upt_conv_Cons del: upt_Suc)
  let ?e = "hd (collidingEntries (Suc n))" and ?es = "tl (collidingEntries (Suc n))"
  have base: "sanitizeCommandName (name (skill ?e)) = ''a''"
    using collidingEntries_props(1)[of "Suc n"] c by (metis list.set_intros(1))
  have rest: "\<forall>e\<in>set ?es. sanitizeCommandName (name (skill e)) = ''a''"
    using collidingEntries_props(1)[of "Suc n"] c by (metis list.set_intros(2))
  have len: "length ?es = n"
    using collidingEntries_props(3)[of "Suc n"] by simp
  let ?spec = "\<lparr> cname = ''a'', skillName = name (skill ?e),
                 cdescription = commandDescription (skill ?e) \<rparr>"
  have u: "insert (toLowerCase ''a'') {} = usedAfter 1"
    by (simp add: usedAfter_def lower_a)
  have "buildSkillCommandSpecs (collidingEntries (Suc n)) = buildLoop (?e # ?es) {} []"
    by (simp add: buildSkillCommandSpecs_def collidingEntries_props(2) c[symmetric])
  also have "\<dots> = buildLoop ?es (usedAfter 1) [?spec]"
    by (simp add: base Let_def resolveUniqueCommandName_def u)
  finally have "map cname (buildSkillCommandSpecs (collidingEntries (Suc n))) =
      map cname (buildLoop ?es (usedAfter 1) [?spec])" by simp
  also have "\<dots> = map cname [?spec] @ map nameOfNth [Suc 1..<Suc 1 + length ?es]"
    using rest by (intro buildLoop_colliding) auto
  also have "\<dots> = ''a'' # map nameOfNth [2..<2 + n]"
  proof -
    have n2: "Suc 1 = 2" by simp
    show ?thesis unfolding len n2 by simp
  qed
  finally show ?thesis .
qed

lemma nameOfNth_distinct: "n \<le> 999 \<Longrightarrow> distinct (''a'' # map nameOfNth [2..<2 + n])"
proof -
  assume n: "n \<le> 999"
  have inj: "inj_on nameOfNth {2..<2 + n}"
  proof (rule inj_onI)
    fix x y assume x: "x \<in> {2..<2 + n}" and y: "y \<in> {2..<2 + n}" and e: "nameOfNth x = nameOfNth y"
    show "x = y"
    proof (cases "x < 1000")
      case True
      show ?thesis
      proof (cases "y < 1000")
        case y1: True
        with True e show ?thesis
          by (simp add: nameOfNth_def candidateName_a_inj)
      next
        case False
        with True e show ?thesis
          by (simp add: nameOfNth_def candidateName_a_other)
      qed
    next
      case False
      show ?thesis
      proof (cases "y < 1000")
        case True
        with False e have "candidateName ''a'' y = ''a_x''"
          by (simp add: nameOfNth_def)
        then show ?thesis
          by (simp add: candidateName_a_other)
      next
        case y2: False
        with False x y n show ?thesis by simp
      qed
    qed
  qed
  have "''a'' \<notin> nameOfNth ` {2..<2 + n}"
    by (auto simp: nameOfNth_def candidateName_a_other(1)[symmetric])
  then have notin: "''a'' \<notin> set (map nameOfNth [2..<2 + n])"
    by (simp only: set_map set_upt not_False_eq_True)
  have d: "distinct (map nameOfNth [2..<2 + n])"
    by (simp only: distinct_map distinct_upt set_upt inj simp_thms)
  from notin d show ?thesis
    by (simp only: distinct.simps simp_thms)
qed

lemma names_length: "length (x # map f [a..<a + n]) = Suc n"
  by simp

lemma names_nth: "k < n \<Longrightarrow> (x # map f [a..<a + n]) ! Suc k = f (a + k)"
  by simp

text \<open>
  C3, as the code has it. The list of 1001 entries named \<open>a\<close>, \<open>a!\<close>, \<open>a!!\<close>, ... holds
  pairwise different skill names that all sanitize to \<open>a\<close>. The first 1000 of them get
  different command names, the last of these being the fallback \<open>a_x\<close>; with all 1001, the
  1000th and the 1001st command are both named \<open>a_x\<close>, so the command names of one pass are
  not distinct.
\<close>

theorem duplicate_command_names:
  "distinct (map (\<lambda>e. name (skill e)) (collidingEntries 1001))
   \<and> distinct (map cname (buildSkillCommandSpecs (collidingEntries 1000)))
   \<and> length (buildSkillCommandSpecs (collidingEntries 1001)) = 1001
   \<and> cname (buildSkillCommandSpecs (collidingEntries 1001) ! 999) = ''a_x''
   \<and> cname (buildSkillCommandSpecs (collidingEntries 1001) ! 1000) = ''a_x''
   \<and> \<not> distinct (map (\<lambda>c. toLowerCase (cname c)) (buildSkillCommandSpecs (collidingEntries 1001)))"
proof -
  let ?specs = "buildSkillCommandSpecs (collidingEntries 1001)"
  have s1: "Suc 1000 = 1001" and s0: "Suc 999 = 1000" and s9: "Suc 998 = 999" by simp_all
  have m: "map cname ?specs = ''a'' # map nameOfNth [2..<2 + 1000]"
    using buildSkillCommandSpecs_colliding[of 1000] unfolding s1 .
  have "length (map cname ?specs) = Suc 1000"
    unfolding m by (rule names_length)
  then have len: "length ?specs = 1001"
    unfolding s1 by (simp only: length_map)
  have "map cname ?specs ! Suc 998 = nameOfNth (2 + 998)"
    unfolding m by (rule names_nth) simp
  then have "map cname ?specs ! 999 = ''a_x''"
    unfolding s9 by (simp add: nameOfNth_def)
  with len have a: "cname (?specs ! 999) = ''a_x''"
    by simp
  have "map cname ?specs ! Suc 999 = nameOfNth (2 + 999)"
    unfolding m by (rule names_nth) simp
  then have "map cname ?specs ! 1000 = ''a_x''"
    unfolding s0 by (simp add: nameOfNth_def)
  with len have b: "cname (?specs ! 1000) = ''a_x''"
    by simp
  have nd: "\<not> distinct (map (\<lambda>c. toLowerCase (cname c)) ?specs)"
  proof
    assume d: "distinct (map (\<lambda>c. toLowerCase (cname c)) ?specs)"
    have "(999::nat) < length (map (\<lambda>c. toLowerCase (cname c)) ?specs)"
      and "(1000::nat) < length (map (\<lambda>c. toLowerCase (cname c)) ?specs)"
      using len by simp_all
    with d have "(map (\<lambda>c. toLowerCase (cname c)) ?specs ! 999 = map (\<lambda>c. toLowerCase (cname c)) ?specs ! 1000)
        = ((999::nat) = 1000)"
      by (rule nth_eq_iff_index_eq)
    with len a b show False by simp
  qed
  have "map cname (buildSkillCommandSpecs (collidingEntries 1000)) = ''a'' # map nameOfNth [2..<2 + 999]"
    using buildSkillCommandSpecs_colliding[of 999] unfolding s0 .
  moreover have "distinct (''a'' # map nameOfNth [2..<2 + 999])"
    by (rule nameOfNth_distinct) simp
  ultimately have d: "distinct (map cname (buildSkillCommandSpecs (collidingEntries 1000)))"
    by (simp only:)
  show ?thesis
    by (intro conjI) (rule collidingEntries_distinct, rule d, rule len, rule a, rule b, rule nd)
qed

text \<open>What the resolver does guarantee: the name it returns is new to \<open>used\<close> unless it is
  the fallback literal. So in the list built by \<open>buildSkillCommandSpecs\<close> a command that
  repeats the name of an earlier one always carries the fallback name of its own base.\<close>

lemma resolveLoop_fresh:
  "toLowerCase (resolveLoop b used i) \<notin> used \<or> resolveLoop b used i = take 30 b @ ''_x''"
proof (induction b used i rule: resolveLoop.induct)
  case (1 b used i)
  show ?case
  proof (cases "i < 1000")
    case True
    show ?thesis
    proof (cases "toLowerCase (candidateName b i) \<in> used")
      case c: True
      with True have "resolveLoop b used i = resolveLoop b used (i + 1)"
        by (simp add: resolveLoop.simps[of b used i])
      with "1.IH"[OF True refl] c show ?thesis by simp
    next
      case False
      with True show ?thesis
        by (simp add: resolveLoop.simps[of b used i])
    qed
  next
    case False
    then show ?thesis
      by (simp add: resolveLoop.simps[of b used i] COMMAND_MAX_LENGTH_def)
  qed
qed

lemma resolveUniqueCommandName_fresh:
  "toLowerCase (resolveUniqueCommandName b used) \<notin> used
   \<or> resolveUniqueCommandName b used = take 30 b @ ''_x''"
  using resolveLoop_fresh[of b used 2] by (simp add: resolveUniqueCommandName_def)

lemma buildLoop_repeats:
  "used = (\<lambda>c. toLowerCase (cname c)) ` set specs \<Longrightarrow> repeatsAreFallbacks specs
   \<Longrightarrow> repeatsAreFallbacks (buildLoop es used specs)"
proof (induction es arbitrary: used specs)
  case Nil
  then show ?case by simp
next
  case (Cons e es)
  let ?base = "sanitizeCommandName (name (skill e))"
  let ?unique = "resolveUniqueCommandName ?base used"
  let ?new = "\<lparr> cname = ?unique, skillName = name (skill e),
                cdescription = commandDescription (skill e) \<rparr>"
  have u: "insert (toLowerCase ?unique) used = (\<lambda>c. toLowerCase (cname c)) ` set (specs @ [?new])"
    using Cons.prems(1) by auto
  have r: "repeatsAreFallbacks (specs @ [?new])"
    unfolding repeatsAreFallbacks_def
  proof (intro allI impI)
    fix j i
    assume j: "j < length (specs @ [?new])" and i: "i < j"
      and eq: "toLowerCase (cname ((specs @ [?new]) ! i)) = toLowerCase (cname ((specs @ [?new]) ! j))"
    show "cname ((specs @ [?new]) ! j) =
            take 30 (sanitizeCommandName (skillName ((specs @ [?new]) ! j))) @ ''_x''"
    proof (cases "j < length specs")
      case True
      with i eq Cons.prems(2) show ?thesis
        by (simp add: repeatsAreFallbacks_def nth_append)
    next
      case False
      with j have jl: "j = length specs" by simp
      with i eq have "toLowerCase ?unique = toLowerCase (cname (specs ! i))"
        by (simp add: nth_append)
      with i jl Cons.prems(1) have "toLowerCase ?unique \<in> used"
        by auto
      with resolveUniqueCommandName_fresh[of ?base used]
      have "?unique = take 30 ?base @ ''_x''" by blast
      with jl show ?thesis by simp
    qed
  qed
  have "buildLoop (e # es) used specs = buildLoop es (insert (toLowerCase ?unique) used) (specs @ [?new])"
    by (simp add: Let_def)
  with Cons.IH[OF u r] show ?case by simp
qed

lemma buildSkillCommandSpecs_repeats: "repeatsAreFallbacks (buildSkillCommandSpecs es)"
  unfolding buildSkillCommandSpecs_def
  by (rule buildLoop_repeats) (simp_all add: repeatsAreFallbacks_def)

end
